theory Spec2Isabelle
  imports Main "HOL-Library.Word"
begin

section \<open>The tagged value of ivalue\_inl.h\<close>

text \<open>
  An \<open>IValue\<close> is a discriminant, a payload union and the flag \<open>is_intrusive_ptr\<close> that
  says whether the payload is an owning pointer. Pointers are addresses into an explicit
  heap that carries the reference count of every target and the contents of every list
  backing store.
\<close>

type_synonym addr = nat

datatype Tag =
    Tag_None | Tag_Tensor | Tag_Double | Tag_Int | Tag_Bool | Tag_Tuple
  | Tag_IntList | Tag_DoubleList | Tag_BoolList | Tag_String | Tag_TensorList
  | Tag_Blob | Tag_GenericList | Tag_GenericDict | Tag_Future | Tag_Device | Tag_Object

text \<open>
  The payload is a C++ union: a read of a member other than the one last written is
  undefined in the source and unspecified here (the selector of another constructor).
\<close>

datatype Payload =
    AsInt (as_int: "64 word")
  | AsDouble (as_double: "64 word")
  | AsBool (as_bool: bool)
  | AsIntrusivePtr (as_intrusive_ptr: addr)

record IValue =
  payload :: Payload
  tag :: Tag
  is_intrusive_ptr :: bool

datatype failure = AssertionFailure | OutOfRange | Deadlock

record heap =
  refcount :: "addr \<Rightarrow> nat"
  lists :: "addr \<Rightarrow> IValue list"
  next_addr :: addr

subsection \<open>Parts of the tagged value declared outside ivalue\_inl.h\<close>

text \<open>
  Modelled from the spec: the tag tests \<open>isNone()\<close>, \<open>isBool()\<close>, ... of the class
  declaration (ivalue.h is not among the sources). The tag identifies which variant the
  value holds.
\<close>

definition isNone :: "IValue \<Rightarrow> bool" where "isNone v = (tag v = Tag_None)"
definition isBool :: "IValue \<Rightarrow> bool" where "isBool v = (tag v = Tag_Bool)"
definition isInt :: "IValue \<Rightarrow> bool" where "isInt v = (tag v = Tag_Int)"
definition isDouble :: "IValue \<Rightarrow> bool" where "isDouble v = (tag v = Tag_Double)"
definition isTensor :: "IValue \<Rightarrow> bool" where "isTensor v = (tag v = Tag_Tensor)"
definition isFuture :: "IValue \<Rightarrow> bool" where "isFuture v = (tag v = Tag_Future)"
definition isString :: "IValue \<Rightarrow> bool" where "isString v = (tag v = Tag_String)"
definition isObject :: "IValue \<Rightarrow> bool" where "isObject v = (tag v = Tag_Object)"
definition isBlob :: "IValue \<Rightarrow> bool" where "isBlob v = (tag v = Tag_Blob)"
definition isTuple :: "IValue \<Rightarrow> bool" where "isTuple v = (tag v = Tag_Tuple)"
definition isIntList :: "IValue \<Rightarrow> bool" where "isIntList v = (tag v = Tag_IntList)"
definition isDoubleList :: "IValue \<Rightarrow> bool" where
  "isDoubleList v = (tag v = Tag_DoubleList)"
definition isBoolList :: "IValue \<Rightarrow> bool" where "isBoolList v = (tag v = Tag_BoolList)"
definition isTensorList :: "IValue \<Rightarrow> bool" where
  "isTensorList v = (tag v = Tag_TensorList)"
definition isGenericList :: "IValue \<Rightarrow> bool" where
  "isGenericList v = (tag v = Tag_GenericList)"
definition isGenericDict :: "IValue \<Rightarrow> bool" where
  "isGenericDict v = (tag v = Tag_GenericDict)"

text \<open>
  Modelled from the spec: the default constructor \<open>IValue()\<close> and \<open>clearToNone()\<close> of
  the class declaration. The spec: a moved-from value is reset to the none tag with no
  pointer, and inline tags never set the ownership flag.
\<close>

definition IValue_default :: IValue where
  "IValue_default = \<lparr>payload = AsInt 0, tag = Tag_None, is_intrusive_ptr = False\<rparr>"

definition clearToNone :: "IValue \<Rightarrow> IValue" where
  "clearToNone v = v\<lparr>payload := AsInt 0, tag := Tag_None, is_intrusive_ptr := False\<rparr>"

text \<open>
  Modelled from the spec: \<open>toBool()\<close>, \<open>toInt()\<close> and \<open>toDouble()\<close> of the class
  declaration, tag-checked reads of the inline payload (a double is kept as its 64 bits).
\<close>

definition toBool :: "IValue \<Rightarrow> failure + bool" where
  "toBool v = (if isBool v then Inr (as_bool (payload v)) else Inl AssertionFailure)"

definition toInt :: "IValue \<Rightarrow> failure + 64 word" where
  "toInt v = (if isInt v then Inr (as_int (payload v)) else Inl AssertionFailure)"

definition toDouble :: "IValue \<Rightarrow> failure + 64 word" where
  "toDouble v = (if isDouble v then Inr (as_double (payload v)) else Inl AssertionFailure)"

text \<open>
  Modelled from the spec: the ownership primitive \<open>c10::intrusive_ptr\<close> (section 4.1).
  \<open>reclaim\<close> wraps a pointer that already stands for one unit of ownership and does not
  touch the count, \<open>release\<close> gives the raw pointer back without decrementing, a copy of a
  handle increments the target's count and the destructor of a handle decrements it. A
  target whose count reaches zero is freed; what is freed is not tracked further. The
  null type of the template (the undefined tensor for \<open>at::Tensor\<close>) is an address like
  any other.
\<close>

definition reclaim :: "addr \<Rightarrow> addr" where "reclaim p = p"

definition release :: "addr \<Rightarrow> addr" where "release p = p"

definition incref :: "addr \<Rightarrow> heap \<Rightarrow> heap" where
  "incref p h = h\<lparr>refcount := (refcount h)(p := Suc (refcount h p))\<rparr>"

definition decref :: "addr \<Rightarrow> heap \<Rightarrow> heap" where
  "decref p h = h\<lparr>refcount := (refcount h)(p := refcount h p - 1)\<rparr>"

definition copy_intrusive_ptr :: "addr \<Rightarrow> heap \<Rightarrow> addr \<times> heap" where
  "copy_intrusive_ptr p h = (p, incref p h)"

text \<open>
  Modelled from the spec: copy construction, move construction and destruction of a tagged
  value (section 3, lifecycle).
\<close>

definition IValue_copy :: "IValue \<Rightarrow> heap \<Rightarrow> IValue \<times> heap" where
  "IValue_copy v h =
     (if is_intrusive_ptr v then (v, incref (as_intrusive_ptr (payload v)) h) else (v, h))"

definition IValue_move :: "IValue \<Rightarrow> IValue \<times> IValue" where
  "IValue_move v = (v, clearToNone v)"

definition IValue_destroy :: "IValue \<Rightarrow> heap \<Rightarrow> heap" where
  "IValue_destroy v h =
     (if is_intrusive_ptr v then decref (as_intrusive_ptr (payload v)) h else h)"

subsection \<open>Extraction of the owned pointer\<close>

text \<open>
  Both functions return the handle, the tagged value afterwards and the heap afterwards.
\<close>

definition moveToIntrusivePtr :: "IValue \<Rightarrow> heap \<Rightarrow> addr \<times> IValue \<times> heap" where
  "moveToIntrusivePtr v h =
     (let t = reclaim (as_intrusive_ptr (payload v));
          v' = clearToNone v
      in (t, v', h))"

definition toIntrusivePtr :: "IValue \<Rightarrow> heap \<Rightarrow> addr \<times> IValue \<times> heap" where
  "toIntrusivePtr v h =
     (let r = reclaim (as_intrusive_ptr (payload v));
          (p, h') = copy_intrusive_ptr r h;
          raw = release r
      in (p, v, h'))"

text \<open>
  The accessors: the \<open>&&\<close> overload is named \<open>_rvalue\<close>, the \<open>const &\<close> overload
  \<open>_const\<close>. \<open>AT_ASSERT\<close> is the branch to \<open>Inl AssertionFailure\<close>.
\<close>

definition toFuture_rvalue :: "IValue \<Rightarrow> heap \<Rightarrow> failure + addr \<times> IValue \<times> heap" where
  "toFuture_rvalue v h =
     (if isFuture v then Inr (moveToIntrusivePtr v h) else Inl AssertionFailure)"

definition toFuture_const :: "IValue \<Rightarrow> heap \<Rightarrow> failure + addr \<times> IValue \<times> heap" where
  "toFuture_const v h =
     (if isFuture v then Inr (toIntrusivePtr v h) else Inl AssertionFailure)"

definition toString_rvalue :: "IValue \<Rightarrow> heap \<Rightarrow> failure + addr \<times> IValue \<times> heap" where
  "toString_rvalue v h =
     (if isString v then Inr (moveToIntrusivePtr v h) else Inl AssertionFailure)"

definition toString_const :: "IValue \<Rightarrow> heap \<Rightarrow> failure + addr \<times> IValue \<times> heap" where
  "toString_const v h =
     (if isString v then Inr (toIntrusivePtr v h) else Inl AssertionFailure)"

definition toObject_rvalue :: "IValue \<Rightarrow> heap \<Rightarrow> failure + addr \<times> IValue \<times> heap" where
  "toObject_rvalue v h =
     (if isObject v then Inr (toIntrusivePtr v h) else Inl AssertionFailure)"

definition toObject_const :: "IValue \<Rightarrow> heap \<Rightarrow> failure + addr \<times> IValue \<times> heap" where
  "toObject_const v h =
     (if isObject v then Inr (toIntrusivePtr v h) else Inl AssertionFailure)"

definition toTensor_rvalue :: "IValue \<Rightarrow> heap \<Rightarrow> failure + addr \<times> IValue \<times> heap" where
  "toTensor_rvalue v h =
     (if isTensor v then Inr (moveToIntrusivePtr v h) else Inl AssertionFailure)"

definition toTensor_const :: "IValue \<Rightarrow> heap \<Rightarrow> failure + addr \<times> IValue \<times> heap" where
  "toTensor_const v h =
     (if isTensor v then Inr (toIntrusivePtr v h) else Inl AssertionFailure)"

definition toBlob_rvalue :: "IValue \<Rightarrow> heap \<Rightarrow> failure + addr \<times> IValue \<times> heap" where
  "toBlob_rvalue v h =
     (if isBlob v then Inr (moveToIntrusivePtr v h) else Inl AssertionFailure)"

definition toBlob_const :: "IValue \<Rightarrow> heap \<Rightarrow> failure + addr \<times> IValue \<times> heap" where
  "toBlob_const v h =
     (if isBlob v then Inr (toIntrusivePtr v h) else Inl AssertionFailure)"

definition toIntList_rvalue :: "IValue \<Rightarrow> heap \<Rightarrow> failure + addr \<times> IValue \<times> heap" where
  "toIntList_rvalue v h =
     (if isIntList v then Inr (moveToIntrusivePtr v h) else Inl AssertionFailure)"

definition toIntList_const :: "IValue \<Rightarrow> heap \<Rightarrow> failure + addr \<times> IValue \<times> heap" where
  "toIntList_const v h =
     (if isIntList v then Inr (toIntrusivePtr v h) else Inl AssertionFailure)"

definition toDoubleList_rvalue :: "IValue \<Rightarrow> heap \<Rightarrow> failure + addr \<times> IValue \<times> heap" where
  "toDoubleList_rvalue v h =
     (if isDoubleList v then Inr (moveToIntrusivePtr v h) else Inl AssertionFailure)"

definition toDoubleList_const :: "IValue \<Rightarrow> heap \<Rightarrow> failure + addr \<times> IValue \<times> heap" where
  "toDoubleList_const v h =
     (if isDoubleList v then Inr (toIntrusivePtr v h) else Inl AssertionFailure)"

definition toBoolList_rvalue :: "IValue \<Rightarrow> heap \<Rightarrow> failure + addr \<times> IValue \<times> heap" where
  "toBoolList_rvalue v h =
     (if isBoolList v then Inr (moveToIntrusivePtr v h) else Inl AssertionFailure)"

definition toBoolList_const :: "IValue \<Rightarrow> heap \<Rightarrow> failure + addr \<times> IValue \<times> heap" where
  "toBoolList_const v h =
     (if isBoolList v then Inr (toIntrusivePtr v h) else Inl AssertionFailure)"

definition toTensorList_rvalue :: "IValue \<Rightarrow> heap \<Rightarrow> failure + addr \<times> IValue \<times> heap" where
  "toTensorList_rvalue v h =
     (if isTensorList v then Inr (moveToIntrusivePtr v h) else Inl AssertionFailure)"

definition toTensorList_const :: "IValue \<Rightarrow> heap \<Rightarrow> failure + addr \<times> IValue \<times> heap" where
  "toTensorList_const v h =
     (if isTensorList v then Inr (toIntrusivePtr v h) else Inl AssertionFailure)"

definition toGenericList_rvalue :: "IValue \<Rightarrow> heap \<Rightarrow> failure + addr \<times> IValue \<times> heap" where
  "toGenericList_rvalue v h =
     (if isGenericList v then Inr (moveToIntrusivePtr v h) else Inl AssertionFailure)"

definition toGenericList_const :: "IValue \<Rightarrow> heap \<Rightarrow> failure + addr \<times> IValue \<times> heap" where
  "toGenericList_const v h =
     (if isGenericList v then Inr (toIntrusivePtr v h) else Inl AssertionFailure)"

definition toGenericDict_rvalue :: "IValue \<Rightarrow> heap \<Rightarrow> failure + addr \<times> IValue \<times> heap" where
  "toGenericDict_rvalue v h =
     (if isGenericDict v then Inr (moveToIntrusivePtr v h) else Inl AssertionFailure)"

definition toGenericDict_const :: "IValue \<Rightarrow> heap \<Rightarrow> failure + addr \<times> IValue \<times> heap" where
  "toGenericDict_const v h =
     (if isGenericDict v then Inr (toIntrusivePtr v h) else Inl AssertionFailure)"

definition toTuple_rvalue :: "IValue \<Rightarrow> heap \<Rightarrow> failure + addr \<times> IValue \<times> heap" where
  "toTuple_rvalue v h =
     (if isTuple v then Inr (moveToIntrusivePtr v h) else Inl AssertionFailure)"

definition toTuple_const :: "IValue \<Rightarrow> heap \<Rightarrow> failure + addr \<times> IValue \<times> heap" where
  "toTuple_const v h =
     (if isTuple v then Inr (toIntrusivePtr v h) else Inl AssertionFailure)"

text \<open>
  What the specification asks of a moving extraction, in its words: the handle is the
  pointer the source owned, the source is left in the none tag with no owned pointer, and
  no reference count has changed.
\<close>

definition moved_out :: "IValue \<Rightarrow> heap \<Rightarrow> failure + addr \<times> IValue \<times> heap \<Rightarrow> bool" where
  "moved_out v h r =
     (case r of
        Inl e \<Rightarrow> False
      | Inr (p, v', h') \<Rightarrow>
          p = as_intrusive_ptr (payload v) \<and> isNone v' \<and> \<not> is_intrusive_ptr v' \<and>
          refcount h' = refcount h)"

subsection \<open>Identity comparison\<close>

definition isSameIdentity :: "IValue \<Rightarrow> IValue \<Rightarrow> bool" where
  "isSameIdentity this rhs =
     (if isNone this \<and> isNone rhs then True
      else if isBool this \<and> isBool rhs then toBool this = toBool rhs
      else if isTensor this \<and> isTensor rhs then
        as_intrusive_ptr (payload this) = as_intrusive_ptr (payload rhs)
      else if isTensor this \<and> isNone rhs then \<not> is_intrusive_ptr this
      else if isNone this \<and> isTensor rhs then \<not> is_intrusive_ptr rhs
      else is_intrusive_ptr this \<and> is_intrusive_ptr rhs \<and>
           as_intrusive_ptr (payload this) = as_intrusive_ptr (payload rhs))"

text \<open>
  Modelled from the spec: \<open>c10::impl::toList\<close> (List.h is not among the sources) builds a
  new backing store for the elements; two stores constructed independently are distinct
  owners (section 4.5). The allocator hands out the next unused address with one owner.
\<close>

definition toList :: "IValue list \<Rightarrow> heap \<Rightarrow> addr \<times> heap" where
  "toList xs h =
     (next_addr h,
      h\<lparr>refcount := (refcount h)(next_addr h := 1),
        lists := (lists h)(next_addr h := xs),
        next_addr := Suc (next_addr h)\<rparr>)"

text \<open>The constructors \<open>IValue(GenericListPtr)\<close> and \<open>IValue(std::vector<IValue>)\<close>.\<close>

definition IValue_of_GenericListPtr :: "addr \<Rightarrow> IValue" where
  "IValue_of_GenericListPtr v =
     \<lparr>payload = AsIntrusivePtr (release v), tag = Tag_GenericList, is_intrusive_ptr = True\<rparr>"

definition IValue_of_vector :: "IValue list \<Rightarrow> heap \<Rightarrow> IValue \<times> heap" where
  "IValue_of_vector v h = (case toList v h of (p, h') \<Rightarrow> (IValue_of_GenericListPtr p, h'))"

subsection \<open>Optional values\<close>

text \<open>
  \<open>generic_to\<close> takes its tagged value by value: \<open>to<T>() &&\<close> move-constructs the
  parameter from the source and \<open>to<T>() const &\<close> copy-constructs it. The conversion of
  the payload type \<open>T\<close> is the parameter \<open>to_T\<close>, the \<open>&&\<close> overload of \<open>to<T>\<close>: it
  returns the converted value, what is left of the tagged value and the heap. The
  by-value parameter is destroyed when \<open>generic_to\<close> returns.
\<close>

definition generic_to_optional ::
  "(IValue \<Rightarrow> heap \<Rightarrow> failure + 'a \<times> IValue \<times> heap) \<Rightarrow> IValue \<Rightarrow> heap \<Rightarrow>
     failure + 'a option \<times> heap" where
  "generic_to_optional to_T ivalue h =
     (if isNone ivalue then Inr (None, IValue_destroy ivalue h)
      else (case to_T ivalue h of
              Inl e \<Rightarrow> Inl e
            | Inr (x, ivalue', h') \<Rightarrow> Inr (Some x, IValue_destroy ivalue' h')))"

definition to_rvalue ::
  "(IValue \<Rightarrow> heap \<Rightarrow> failure + 'b \<times> heap) \<Rightarrow> IValue \<Rightarrow> heap \<Rightarrow>
     failure + 'b \<times> IValue \<times> heap" where
  "to_rvalue generic_to this h =
     (case IValue_move this of
        (ivalue, this') \<Rightarrow>
          (case generic_to ivalue h of
             Inl e \<Rightarrow> Inl e
           | Inr (x, h') \<Rightarrow> Inr (x, this', h')))"

definition to_const ::
  "(IValue \<Rightarrow> heap \<Rightarrow> failure + 'b \<times> heap) \<Rightarrow> IValue \<Rightarrow> heap \<Rightarrow>
     failure + 'b \<times> IValue \<times> heap" where
  "to_const generic_to this h =
     (case IValue_copy this h of
        (ivalue, h1) \<Rightarrow>
          (case generic_to ivalue h1 of
             Inl e \<Rightarrow> Inl e
           | Inr (x, h') \<Rightarrow> Inr (x, this, h')))"

text \<open>
  The member \<open>toOptional<T>()\<close> calls \<open>this->to<T>()\<close> on an lvalue, the \<open>const &\<close>
  overload, given here as \<open>to_T_const\<close>.
\<close>

definition toOptional ::
  "(IValue \<Rightarrow> heap \<Rightarrow> failure + 'a \<times> IValue \<times> heap) \<Rightarrow> IValue \<Rightarrow> heap \<Rightarrow>
     failure + 'a option \<times> IValue \<times> heap" where
  "toOptional to_T_const this h =
     (if isNone this then Inr (None, this, h)
      else (case to_T_const this h of
              Inl e \<Rightarrow> Inl e
            | Inr (x, this', h') \<Rightarrow> Inr (Some x, this', h')))"

text \<open>
  The constructor \<open>IValue(c10::optional<T>)\<close>: it delegates to \<open>IValue()\<close> and, when the
  optional is engaged, assigns \<open>IValue(std::move(*v))\<close>, the constructor for \<open>T\<close> given
  here as \<open>IValue_of_T\<close> (the overwritten value is destroyed by the assignment).
\<close>

definition IValue_of_optional ::
  "('a \<Rightarrow> heap \<Rightarrow> IValue \<times> heap) \<Rightarrow> 'a option \<Rightarrow> heap \<Rightarrow> IValue \<times> heap" where
  "IValue_of_optional IValue_of_T v h =
     (let this = IValue_default in
      case v of
        None \<Rightarrow> (this, h)
      | Some x \<Rightarrow> (case IValue_of_T x h of (w, h') \<Rightarrow> (w, IValue_destroy this h')))"

subsection \<open>Lists recovered from a tagged value\<close>

text \<open>
  Modelled from the spec: \<open>impl::toTypedList\<close> (List.h is not among the sources). A typed
  list is a view of the generic backing store: the conversion relabels the handle and
  copies nothing (section 4.5).
\<close>

definition toTypedList :: "addr \<Rightarrow> addr" where "toTypedList p = p"

text \<open>
  Modelled from the spec: writing an element through a list handle (List.h). Every handle
  to a backing store sees the mutation (section 3).
\<close>

definition ListPtr_set :: "addr \<Rightarrow> nat \<Rightarrow> IValue \<Rightarrow> heap \<Rightarrow> heap" where
  "ListPtr_set p i x h = h\<lparr>lists := (lists h)(p := (lists h p)[i := x])\<rparr>"

text \<open>\<open>toGenericListRef\<close> reads the backing store in place.\<close>

definition toGenericListRef :: "IValue \<Rightarrow> heap \<Rightarrow> failure + IValue list" where
  "toGenericListRef v h =
     (if isGenericList v then Inr (lists h (as_intrusive_ptr (payload v)))
      else Inl AssertionFailure)"

text \<open>\<open>generic_to\<close> for \<open>c10::ListPtr<Elem>\<close>: the typed view of the generic list.\<close>

definition generic_to_ListPtr :: "IValue \<Rightarrow> heap \<Rightarrow> failure + addr \<times> heap" where
  "generic_to_ListPtr ivalue h =
     (case toGenericList_rvalue ivalue h of
        Inl e \<Rightarrow> Inl e
      | Inr (p, ivalue', h') \<Rightarrow> Inr (toTypedList p, IValue_destroy ivalue' h'))"

text \<open>
  The element types \<open>Elem\<close> of \<open>std::vector<Elem>\<close> and \<open>c10::ListPtr<Elem>\<close> taken
  here, each with its \<open>DEFINE_TO\<close> conversion: \<open>int64_t\<close> (\<open>toInt\<close>), \<open>double\<close>
  (\<open>toDouble\<close>), \<open>bool\<close> (\<open>toBool\<close>), \<open>at::Tensor\<close> (\<open>toTensor\<close>) and the handles to a
  string (\<open>toString\<close>), an object (\<open>toObject\<close>), a future (\<open>toFuture\<close>) and a blob
  (\<open>toBlob\<close>). A value of an element type is a machine word, a boolean or a handle.
\<close>

datatype Elem =
    Elem_int64_t | Elem_double | Elem_bool | Elem_Tensor
  | Elem_String | Elem_Object | Elem_Future | Elem_Blob

datatype elem_value =
    IntElem "64 word"
  | DoubleElem "64 word"
  | BoolElem bool
  | HandleElem addr

text \<open>
  \<open>to<ListPtr<Elem>>() &&\<close>. \<open>DEFINE_TO\<close> specialises it for \<open>int64_t\<close>, \<open>double\<close>,
  \<open>bool\<close> and \<open>at::Tensor\<close> to \<open>toIntList\<close>, \<open>toDoubleList\<close>, \<open>toBoolList\<close> and
  \<open>toTensorList\<close>; for every other element type it is the template \<open>to<T>() &&\<close>, which
  calls \<open>generic_to\<close> for \<open>ListPtr<Elem>\<close>.
\<close>

fun to_ListPtr_rvalue :: "Elem \<Rightarrow> IValue \<Rightarrow> heap \<Rightarrow> failure + addr \<times> IValue \<times> heap" where
  "to_ListPtr_rvalue Elem_int64_t this h = toIntList_rvalue this h"
| "to_ListPtr_rvalue Elem_double this h = toDoubleList_rvalue this h"
| "to_ListPtr_rvalue Elem_bool this h = toBoolList_rvalue this h"
| "to_ListPtr_rvalue Elem_Tensor this h = toTensorList_rvalue this h"
| "to_ListPtr_rvalue Elem_String this h = to_rvalue generic_to_ListPtr this h"
| "to_ListPtr_rvalue Elem_Object this h = to_rvalue generic_to_ListPtr this h"
| "to_ListPtr_rvalue Elem_Future this h = to_rvalue generic_to_ListPtr this h"
| "to_ListPtr_rvalue Elem_Blob this h = to_rvalue generic_to_ListPtr this h"

text \<open>
  Modelled from the spec: reading an element through a typed list (List.h). One store of
  erased values backs every list kind and a typed front-end reinterprets its elements
  (sections 2 and 4.5): the read is \<open>to<Elem>() const &\<close> on the stored tagged value.
\<close>

fun to_Elem :: "Elem \<Rightarrow> IValue \<Rightarrow> heap \<Rightarrow> failure + elem_value \<times> IValue \<times> heap" where
  "to_Elem Elem_int64_t x h =
     (case toInt x of Inl e \<Rightarrow> Inl e | Inr n \<Rightarrow> Inr (IntElem n, x, h))"
| "to_Elem Elem_double x h =
     (case toDouble x of Inl e \<Rightarrow> Inl e | Inr d \<Rightarrow> Inr (DoubleElem d, x, h))"
| "to_Elem Elem_bool x h =
     (case toBool x of Inl e \<Rightarrow> Inl e | Inr b \<Rightarrow> Inr (BoolElem b, x, h))"
| "to_Elem Elem_Tensor x h =
     (case toTensor_const x h of Inl e \<Rightarrow> Inl e | Inr (p, x', h') \<Rightarrow> Inr (HandleElem p, x', h'))"
| "to_Elem Elem_String x h =
     (case toString_const x h of Inl e \<Rightarrow> Inl e | Inr (p, x', h') \<Rightarrow> Inr (HandleElem p, x', h'))"
| "to_Elem Elem_Object x h =
     (case toObject_const x h of Inl e \<Rightarrow> Inl e | Inr (p, x', h') \<Rightarrow> Inr (HandleElem p, x', h'))"
| "to_Elem Elem_Future x h =
     (case toFuture_const x h of Inl e \<Rightarrow> Inl e | Inr (p, x', h') \<Rightarrow> Inr (HandleElem p, x', h'))"
| "to_Elem Elem_Blob x h =
     (case toBlob_const x h of Inl e \<Rightarrow> Inl e | Inr (p, x', h') \<Rightarrow> Inr (HandleElem p, x', h'))"

text \<open>
  \<open>std::vector\<close> of the C++ library: a vector is an object that owns its elements. A
  new vector is a new object, here a new address in a store of vectors; \<open>push_back\<close>
  appends to the vector at an address and an assignment to an element writes the vector
  at that address.
\<close>

record 'e vectors =
  vec :: "addr \<Rightarrow> 'e list"
  next_vec :: addr

definition new_vector :: "'e vectors \<Rightarrow> addr \<times> 'e vectors" where
  "new_vector vs =
     (next_vec vs, vs\<lparr>vec := (vec vs)(next_vec vs := []), next_vec := Suc (next_vec vs)\<rparr>)"

definition push_back :: "addr \<Rightarrow> 'e \<Rightarrow> 'e vectors \<Rightarrow> 'e vectors" where
  "push_back a e vs = vs\<lparr>vec := (vec vs)(a := vec vs a @ [e])\<rparr>"

definition vector_set :: "addr \<Rightarrow> nat \<Rightarrow> 'e \<Rightarrow> 'e vectors \<Rightarrow> 'e vectors" where
  "vector_set a i e vs = vs\<lparr>vec := (vec vs)(a := (vec vs a)[i := e])\<rparr>"

text \<open>
  The loop \<open>for (Elem v : list) result.push_back(std::move(v))\<close>, with the read of an
  element as the parameter \<open>read\<close>; a failed read ends the loop. The elements are those
  the backing store holds when the loop starts: the read is \<open>const\<close> on the element and
  does not write to the list.
\<close>

fun push_back_all ::
  "(IValue \<Rightarrow> heap \<Rightarrow> failure + 'e \<times> IValue \<times> heap) \<Rightarrow> IValue list \<Rightarrow> addr \<Rightarrow>
     'e vectors \<Rightarrow> heap \<Rightarrow> failure + 'e vectors \<times> heap" where
  "push_back_all read [] result vs h = Inr (vs, h)"
| "push_back_all read (x # xs) result vs h =
     (case read x h of
        Inl e \<Rightarrow> Inl e
      | Inr (v, x', h') \<Rightarrow> push_back_all read xs result (push_back result v vs) h')"

text \<open>
  \<open>generic_to\<close> for \<open>std::vector<Elem>\<close>, given the element type and the store of
  vectors. It returns the address of the new vector \<open>result\<close> with the store of vectors;
  the handle \<open>list\<close> and the by-value parameter are destroyed on return.
\<close>

definition generic_to_vector ::
  "Elem \<Rightarrow> elem_value vectors \<Rightarrow> IValue \<Rightarrow> heap \<Rightarrow>
     failure + (addr \<times> elem_value vectors) \<times> heap" where
  "generic_to_vector ty vs ivalue h =
     (case to_ListPtr_rvalue ty ivalue h of
        Inl e \<Rightarrow> Inl e
      | Inr (list, ivalue', h1) \<Rightarrow>
          (case new_vector vs of
             (result, vs1) \<Rightarrow>
               (case push_back_all (to_Elem ty) (lists h1 list) result vs1 h1 of
                  Inl e \<Rightarrow> Inl e
                | Inr (vs2, h2) \<Rightarrow>
                    Inr ((result, vs2), IValue_destroy ivalue' (decref list h2)))))"

text \<open>
  The list tag a source must hold for \<open>to<std::vector<Elem>>\<close> to pass its assertion,
  the tag an element of the store must hold to be read as an \<open>Elem\<close>, and what the read
  gives.
\<close>

fun list_tag :: "Elem \<Rightarrow> Tag" where
  "list_tag Elem_int64_t = Tag_IntList"
| "list_tag Elem_double = Tag_DoubleList"
| "list_tag Elem_bool = Tag_BoolList"
| "list_tag Elem_Tensor = Tag_TensorList"
| "list_tag Elem_String = Tag_GenericList"
| "list_tag Elem_Object = Tag_GenericList"
| "list_tag Elem_Future = Tag_GenericList"
| "list_tag Elem_Blob = Tag_GenericList"

fun elem_tag :: "Elem \<Rightarrow> Tag" where
  "elem_tag Elem_int64_t = Tag_Int"
| "elem_tag Elem_double = Tag_Double"
| "elem_tag Elem_bool = Tag_Bool"
| "elem_tag Elem_Tensor = Tag_Tensor"
| "elem_tag Elem_String = Tag_String"
| "elem_tag Elem_Object = Tag_Object"
| "elem_tag Elem_Future = Tag_Future"
| "elem_tag Elem_Blob = Tag_Blob"

fun elem_of :: "Elem \<Rightarrow> IValue \<Rightarrow> elem_value" where
  "elem_of Elem_int64_t x = IntElem (as_int (payload x))"
| "elem_of Elem_double x = DoubleElem (as_double (payload x))"
| "elem_of Elem_bool x = BoolElem (as_bool (payload x))"
| "elem_of Elem_Tensor x = HandleElem (as_intrusive_ptr (payload x))"
| "elem_of Elem_String x = HandleElem (as_intrusive_ptr (payload x))"
| "elem_of Elem_Object x = HandleElem (as_intrusive_ptr (payload x))"
| "elem_of Elem_Future x = HandleElem (as_intrusive_ptr (payload x))"
| "elem_of Elem_Blob x = HandleElem (as_intrusive_ptr (payload x))"

definition readable :: "Elem \<Rightarrow> IValue list \<Rightarrow> bool" where
  "readable ty xs = list_all (\<lambda>x. tag x = elem_tag ty) xs"

section \<open>Object\<close>

text \<open>
  The class type is an external collaborator; an object keeps a reference to it
  (\<open>type_\<close>, here \<open>type_m\<close>) and owns its slots (\<open>slots_\<close>, here \<open>slots_m\<close>). A slot
  index is a \<open>size_t\<close>, here a natural number; the counts of what the slot values point
  to are not followed through the slots.
\<close>

record 'c Object =
  type_m :: 'c
  slots_m :: "IValue list"

definition Object_create :: "'c \<Rightarrow> nat \<Rightarrow> 'c Object" where
  "Object_create type numSlots = \<lparr>type_m = type, slots_m = replicate numSlots IValue_default\<rparr>"

text \<open>
  Modelled from the spec: \<open>resizeObject\<close> is declared in ivalue\_inl.h and defined in a file
  that is not among the sources. The spec (sections 4.4 and 8): a write beyond the current
  length extends the slots with none-valued slots, to length \<open>slot + 1\<close>.
\<close>

definition resizeObject :: "nat \<Rightarrow> 'c Object \<Rightarrow> 'c Object" where
  "resizeObject slot obj =
     obj\<lparr>slots_m := slots_m obj @ replicate (Suc slot - length (slots_m obj)) IValue_default\<rparr>"

definition setSlot :: "nat \<Rightarrow> IValue \<Rightarrow> 'c Object \<Rightarrow> 'c Object" where
  "setSlot slot v obj =
     (let obj1 = (if slot \<ge> length (slots_m obj) then resizeObject slot obj else obj)
      in obj1\<lparr>slots_m := (slots_m obj1)[slot := v]\<rparr>)"

definition getSlot :: "nat \<Rightarrow> 'c Object \<Rightarrow> failure + IValue" where
  "getSlot slot obj =
     (if slot < length (slots_m obj) then Inr (slots_m obj ! slot) else Inl OutOfRange)"

text \<open>
  A sequence of slot operations on one object. A read that fails raises
  \<open>std::out_of_range\<close> and leaves the object as it was.
\<close>

datatype object_op = SetSlot nat IValue | GetSlot nat

fun apply_op :: "object_op \<Rightarrow> 'c Object \<Rightarrow> 'c Object" where
  "apply_op (SetSlot slot v) obj = setSlot slot v obj"
| "apply_op (GetSlot slot) obj = obj"

fun run_ops :: "object_op list \<Rightarrow> 'c Object \<Rightarrow> 'c Object" where
  "run_ops [] obj = obj"
| "run_ops (op # ops) obj = run_ops ops (apply_op op obj)"

fun written_slots :: "object_op list \<Rightarrow> nat list" where
  "written_slots [] = []"
| "written_slots (SetSlot slot v # ops) = slot # written_slots ops"
| "written_slots (GetSlot slot # ops) = written_slots ops"

section \<open>Future\<close>

datatype FutureError = FutureError (error_msg: string)

text \<open>
  A callback is a \<open>std::function<void(void)>\<close>. Its body is described by what it does:
  nothing to the future (a body identified by a number, which returns), a call of
  \<open>addCallback\<close>, of \<open>value\<close> or of \<open>wait\<close> on the future it is registered on, the
  notifier that \<open>wait\<close> registers, or a \<open>throw\<close>. A body catches nothing: what
  \<open>value\<close> or a nested callback raises leaves the body.
\<close>

datatype callback =
    CbPlain nat
  | CbAddCallback callback
  | CbValue
  | CbWait
  | CbNotify
  | CbThrow FutureError

text \<open>
  The fields of the class (\<open>mutex_\<close>, \<open>value_\<close>, \<open>completed_\<close> carry the suffix \<open>_m\<close>),
  with \<open>mutex_m\<close> true while a \<open>std::unique_lock\<close> holds the mutex. \<open>invoked\<close> is not a
  field of the class: it records every call of a callback body, with the state of the
  mutex at the call. The stored value is a tagged value; the counts of what it points to
  are not followed through the future.
\<close>

record Future =
  mutex_m :: bool
  value_m :: IValue
  completed_m :: bool
  callbacks :: "callback list"
  has_error :: bool
  error :: FutureError
  invoked :: "(callback \<times> bool) list"

text \<open>
  What a member function does on one thread: it returns, it raises a \<open>FutureError\<close>, it
  blocks on the condition variable until another thread completes the future, or it
  fails fatally.
\<close>

datatype 'a outcome =
    Returns 'a Future
  | Throws FutureError Future
  | Blocks Future
  | Fatal failure

text \<open>
  \<open>std::unique_lock<std::mutex>\<close> of the C++ library, on one thread. The mutex is not
  recursive: a thread that acquires it while holding it never proceeds.
\<close>

definition lock_mutex :: "Future \<Rightarrow> failure + Future" where
  "lock_mutex f = (if mutex_m f then Inl Deadlock else Inr (f\<lparr>mutex_m := True\<rparr>))"

definition unlock_mutex :: "Future \<Rightarrow> Future" where
  "unlock_mutex f = f\<lparr>mutex_m := False\<rparr>"

definition completed :: "Future \<Rightarrow> bool" where
  "completed f = completed_m f"

definition "value" :: "Future \<Rightarrow> IValue outcome" where
  "value f =
     (case lock_mutex f of
        Inl e \<Rightarrow> Fatal e
      | Inr f1 \<Rightarrow>
          if \<not> completed f1 then Fatal AssertionFailure
          else if has_error f1 then Throws (error f1) (unlock_mutex f1)
          else Returns (value_m f1) (unlock_mutex f1))"

text \<open>The measure under which the three member functions below terminate.\<close>

fun callback_weight :: "callback \<Rightarrow> nat" where
  "callback_weight (CbPlain n) = 1"
| "callback_weight (CbAddCallback c) = Suc (callback_weight c)"
| "callback_weight CbValue = 1"
| "callback_weight CbWait = 3"
| "callback_weight CbNotify = 1"
| "callback_weight (CbThrow e) = 1"

text \<open>The record of a call of a callback body, with the state of the mutex at the call.\<close>

definition record_call :: "callback \<Rightarrow> Future \<Rightarrow> Future" where
  "record_call c f = f\<lparr>invoked := invoked f @ [(c, mutex_m f)]\<rparr>"

text \<open>
  \<open>invoke\<close> is the call \<open>callback()\<close>: it records the call and runs the body. In
  \<open>wait\<close> on a pending future the flag \<open>fired\<close> is still false after \<open>addCallback\<close> has
  queued the notifier, so the thread blocks in \<open>finished.wait(lock)\<close>, which releases the
  mutex; the assertion after the loop is not reached on one thread.
\<close>

function invoke :: "callback \<Rightarrow> Future \<Rightarrow> unit outcome"
  and addCallback :: "callback \<Rightarrow> Future \<Rightarrow> unit outcome"
  and wait :: "Future \<Rightarrow> unit outcome" where
  "invoke (CbPlain n) f = Returns () (record_call (CbPlain n) f)"
| "invoke (CbAddCallback c) f = addCallback c (record_call (CbAddCallback c) f)"
| "invoke CbValue f =
     (case value (record_call CbValue f) of
        Returns v f1 \<Rightarrow> Returns () f1
      | Throws e f1 \<Rightarrow> Throws e f1
      | Blocks f1 \<Rightarrow> Blocks f1
      | Fatal k \<Rightarrow> Fatal k)"
| "invoke CbWait f = wait (record_call CbWait f)"
| "invoke CbNotify f =
     (case lock_mutex (record_call CbNotify f) of
        Inl e \<Rightarrow> Fatal e
      | Inr f1 \<Rightarrow> Returns () (unlock_mutex f1))"
| "invoke (CbThrow e) f = Throws e (record_call (CbThrow e) f)"
| "addCallback callback f =
     (case lock_mutex f of
        Inl e \<Rightarrow> Fatal e
      | Inr f1 \<Rightarrow>
          if completed f1 then invoke callback (unlock_mutex f1)
          else Returns () (unlock_mutex (f1\<lparr>callbacks := callbacks f1 @ [callback]\<rparr>)))"
| "wait f =
     (if completed f then Returns () f
      else (case addCallback CbNotify f of
              Returns u f1 \<Rightarrow>
                (case lock_mutex f1 of
                   Inl e \<Rightarrow> Fatal e
                 | Inr f2 \<Rightarrow> Blocks (unlock_mutex f2))
            | Throws e f1 \<Rightarrow> Throws e f1
            | Blocks f1 \<Rightarrow> Blocks f1
            | Fatal k \<Rightarrow> Fatal k))"
  by pat_completeness auto

termination
  by (relation "measure (\<lambda>x. case x of
        Inl (c, f) \<Rightarrow> 2 * callback_weight c
      | Inr (Inl (c, f)) \<Rightarrow> 2 * callback_weight c + 1
      | Inr (Inr f) \<Rightarrow> 4)") auto

text \<open>
  The loop of \<open>fireCallbacks\<close> over the queue. The future is completed while it runs, so
  no callback can append to the queue it iterates. Nothing catches what a callback
  raises: it ends the loop and leaves \<open>fireCallbacks\<close> before \<open>callbacks.clear()\<close>.
\<close>

fun run_callbacks :: "callback list \<Rightarrow> Future \<Rightarrow> unit outcome" where
  "run_callbacks [] f = Returns () f"
| "run_callbacks (c # cs) f =
     (case invoke c f of
        Returns u f1 \<Rightarrow> run_callbacks cs f1
      | Throws e f1 \<Rightarrow> Throws e f1
      | Blocks f1 \<Rightarrow> Blocks f1
      | Fatal k \<Rightarrow> Fatal k)"

definition fireCallbacks :: "Future \<Rightarrow> unit outcome" where
  "fireCallbacks f =
     (if \<not> completed f then Fatal AssertionFailure
      else (case run_callbacks (callbacks f) f of
              Returns u f1 \<Rightarrow> Returns () (f1\<lparr>callbacks := []\<rparr>)
            | Throws e f1 \<Rightarrow> Throws e f1
            | Blocks f1 \<Rightarrow> Blocks f1
            | Fatal k \<Rightarrow> Fatal k))"

text \<open>The two overloads of \<open>markCompleted\<close>: with a value and with an error.\<close>

definition markCompleted :: "IValue \<Rightarrow> Future \<Rightarrow> unit outcome" where
  "markCompleted v f =
     (case lock_mutex f of
        Inl e \<Rightarrow> Fatal e
      | Inr f1 \<Rightarrow>
          if completed f1 then Fatal AssertionFailure
          else fireCallbacks (unlock_mutex (f1\<lparr>completed_m := True, value_m := v\<rparr>)))"

definition markCompleted_error :: "FutureError \<Rightarrow> Future \<Rightarrow> unit outcome" where
  "markCompleted_error e f =
     (case lock_mutex f of
        Inl k \<Rightarrow> Fatal k
      | Inr f1 \<Rightarrow>
          if completed f1 then Fatal AssertionFailure
          else fireCallbacks
                 (unlock_mutex (f1\<lparr>completed_m := True, has_error := True, error := e\<rparr>)))"

subsection \<open>Sequences of calls on one future\<close>

text \<open>
  The bodies that are called when a callback is called on a completed future: the
  callback and, for a body that registers another callback, that one in turn.
\<close>

fun calls :: "callback \<Rightarrow> callback list" where
  "calls (CbAddCallback c) = CbAddCallback c # calls c"
| "calls (CbPlain n) = [CbPlain n]"
| "calls CbValue = [CbValue]"
| "calls CbWait = [CbWait]"
| "calls CbNotify = [CbNotify]"
| "calls (CbThrow e) = [CbThrow e]"

definition unlocked_calls :: "callback list \<Rightarrow> (callback \<times> bool) list" where
  "unlocked_calls cs = map (\<lambda>c. (c, False)) cs"

definition after_calls :: "callback list \<Rightarrow> Future \<Rightarrow> Future" where
  "after_calls cs f = f\<lparr>invoked := invoked f @ unlocked_calls cs\<rparr>"

text \<open>
  What a callback raises when it is called on a completed future: the stored error when
  its body reads \<open>value\<close> of a future completed with an error, the exception of a
  \<open>throw\<close>, nothing otherwise.
\<close>

fun thrown :: "Future \<Rightarrow> callback \<Rightarrow> FutureError option" where
  "thrown f (CbPlain n) = None"
| "thrown f (CbAddCallback c) = thrown f c"
| "thrown f CbValue = (if has_error f then Some (error f) else None)"
| "thrown f CbWait = None"
| "thrown f CbNotify = None"
| "thrown f (CbThrow e) = Some e"

text \<open>
  Of a queue, the callbacks that are called when the queue is fired (those up to and with
  the first that raises) and what the first of them to raise raises.
\<close>

fun fired :: "Future \<Rightarrow> callback list \<Rightarrow> callback list" where
  "fired f [] = []"
| "fired f (c # cs) = (case thrown f c of None \<Rightarrow> c # fired f cs | Some x \<Rightarrow> [c])"

fun first_thrown :: "Future \<Rightarrow> callback list \<Rightarrow> FutureError option" where
  "first_thrown f [] = None"
| "first_thrown f (c # cs) = (case thrown f c of None \<Rightarrow> first_thrown f cs | Some x \<Rightarrow> Some x)"

text \<open>A call that returns, or raises when there is something to raise.\<close>

fun ends :: "FutureError option \<Rightarrow> Future \<Rightarrow> unit outcome" where
  "ends None f = Returns () f"
| "ends (Some x) f = Throws x f"

text \<open>The future a call leaves behind when it returns or raises.\<close>

fun final_state :: "'a outcome \<Rightarrow> Future option" where
  "final_state (Returns u f) = Some f"
| "final_state (Throws x f) = Some f"
| "final_state (Blocks f) = None"
| "final_state (Fatal k) = None"

text \<open>Registering a list of callbacks, one \<open>addCallback\<close> after the other.\<close>

fun add_all :: "callback list \<Rightarrow> Future \<Rightarrow> unit outcome" where
  "add_all [] f = Returns () f"
| "add_all (c # cs) f =
     (case addCallback c f of
        Returns u f1 \<Rightarrow> add_all cs f1
      | Throws e f1 \<Rightarrow> Throws e f1
      | Blocks f1 \<Rightarrow> Blocks f1
      | Fatal k \<Rightarrow> Fatal k)"

text \<open>
  A caller's sequence of calls on a future. It goes on after a call that returned or
  raised, and ends with a call that fails fatally or blocks.
\<close>

datatype future_op =
    MarkCompleted IValue
  | MarkCompletedError FutureError
  | AddCallback callback
  | Value
  | Wait

fun step :: "future_op \<Rightarrow> Future \<Rightarrow> unit outcome" where
  "step (MarkCompleted v) f = markCompleted v f"
| "step (MarkCompletedError e) f = markCompleted_error e f"
| "step (AddCallback c) f = addCallback c f"
| "step Value f =
     (case value f of
        Returns v f1 \<Rightarrow> Returns () f1
      | Throws e f1 \<Rightarrow> Throws e f1
      | Blocks f1 \<Rightarrow> Blocks f1
      | Fatal k \<Rightarrow> Fatal k)"
| "step Wait f = wait f"

fun after_ops :: "future_op list \<Rightarrow> Future \<Rightarrow> Future option" where
  "after_ops [] f = Some f"
| "after_ops (op # ops) f =
     (case step op f of
        Returns u f1 \<Rightarrow> after_ops ops f1
      | Throws e f1 \<Rightarrow> after_ops ops f1
      | Blocks f1 \<Rightarrow> None
      | Fatal k \<Rightarrow> None)"

subsection \<open>Reads of an element\<close>

text \<open>
  A read that gives what \<open>elem_of\<close> gives and writes to no backing store, and a list
  every element of which can be read.
\<close>

definition reads_as ::
  "(IValue \<Rightarrow> heap \<Rightarrow> failure + 'e \<times> IValue \<times> heap) \<Rightarrow> (IValue \<Rightarrow> 'e) \<Rightarrow> bool" where
  "reads_as read elem_of' =
     (\<forall>x h e x' h'. read x h = Inr (e, x', h') \<longrightarrow> e = elem_of' x \<and> lists h' = lists h)"

definition converts_all ::
  "(IValue \<Rightarrow> heap \<Rightarrow> failure + 'e \<times> IValue \<times> heap) \<Rightarrow> IValue list \<Rightarrow> bool" where
  "converts_all read xs = (\<forall>x \<in> set xs. \<forall>h. \<exists>r. read x h = Inr r)"

section \<open>Extraction by move\<close>

lemma moveToIntrusivePtr_moved_out:
  "moved_out v h (Inr (moveToIntrusivePtr v h))"
  by (simp add: moved_out_def moveToIntrusivePtr_def reclaim_def clearToNone_def isNone_def)

lemma rvalue_accessors_moved_out:
  "isFuture v \<Longrightarrow> moved_out v h (toFuture_rvalue v h)"
  "isString v \<Longrightarrow> moved_out v h (toString_rvalue v h)"
  "isTensor v \<Longrightarrow> moved_out v h (toTensor_rvalue v h)"
  "isBlob v \<Longrightarrow> moved_out v h (toBlob_rvalue v h)"
  "isIntList v \<Longrightarrow> moved_out v h (toIntList_rvalue v h)"
  "isDoubleList v \<Longrightarrow> moved_out v h (toDoubleList_rvalue v h)"
  "isBoolList v \<Longrightarrow> moved_out v h (toBoolList_rvalue v h)"
  "isTensorList v \<Longrightarrow> moved_out v h (toTensorList_rvalue v h)"
  "isGenericList v \<Longrightarrow> moved_out v h (toGenericList_rvalue v h)"
  "isGenericDict v \<Longrightarrow> moved_out v h (toGenericDict_rvalue v h)"
  "isTuple v \<Longrightarrow> moved_out v h (toTuple_rvalue v h)"
  by (simp_all add: moveToIntrusivePtr_moved_out toFuture_rvalue_def toString_rvalue_def
      toTensor_rvalue_def toBlob_rvalue_def toIntList_rvalue_def toDoubleList_rvalue_def
      toBoolList_rvalue_def toTensorList_rvalue_def toGenericList_rvalue_def
      toGenericDict_rvalue_def toTuple_rvalue_def)

lemma toObject_rvalue_aliases:
  "isObject v \<Longrightarrow>
     toObject_rvalue v h = Inr (as_intrusive_ptr (payload v), v, incref (as_intrusive_ptr (payload v)) h)"
  by (simp add: toObject_rvalue_def toIntrusivePtr_def reclaim_def copy_intrusive_ptr_def Let_def)

text \<open>
  Claim C1. Every moving accessor of an owning variant should hand out the pointer the
  source owned, leave the source in the none tag with no owned pointer and change no
  reference count. The accessors above do; the \<open>&&\<close> overload of \<open>toObject\<close> calls
  \<open>toIntrusivePtr\<close>: for an object-tagged value that owns the target at address 7, with
  count 1, it returns the handle, leaves the source tagged as an object that still owns
  the pointer, and the count is 2.
\<close>

theorem toObject_rvalue_not_moved:
  "toObject_rvalue \<lparr>payload = AsIntrusivePtr 7, tag = Tag_Object, is_intrusive_ptr = True\<rparr>
       \<lparr>refcount = (\<lambda>a. if a = 7 then 1 else 0), lists = (\<lambda>a. []), next_addr = 8\<rparr>
     = Inr (7, \<lparr>payload = AsIntrusivePtr 7, tag = Tag_Object, is_intrusive_ptr = True\<rparr>,
          \<lparr>refcount = (\<lambda>a. if a = 7 then 2 else 0), lists = (\<lambda>a. []), next_addr = 8\<rparr>)
   \<and> \<not> moved_out \<lparr>payload = AsIntrusivePtr 7, tag = Tag_Object, is_intrusive_ptr = True\<rparr>
       \<lparr>refcount = (\<lambda>a. if a = 7 then 1 else 0), lists = (\<lambda>a. []), next_addr = 8\<rparr>
       (toObject_rvalue \<lparr>payload = AsIntrusivePtr 7, tag = Tag_Object, is_intrusive_ptr = True\<rparr>
          \<lparr>refcount = (\<lambda>a. if a = 7 then 1 else 0), lists = (\<lambda>a. []), next_addr = 8\<rparr>)"
  by (auto simp add: toObject_rvalue_def toIntrusivePtr_def reclaim_def copy_intrusive_ptr_def
      incref_def isObject_def moved_out_def isNone_def fun_eq_iff)

section \<open>Identity comparison\<close>

text \<open>
  Claim C5. \<open>isSameIdentity\<close>: none and none are the same; two booleans compare by value;
  two tensors compare by the pointer; an undefined tensor (tensor tag, no owned pointer)
  and none are the same in both directions; any other pair is the same only if both sides
  own a pointer and the pointers are equal (and exactly then, unless the pair is a tensor
  and none); two generic lists built one after the other from the same elements hold the same
  contents and are not the same, while each is the same as itself.
\<close>

theorem isSameIdentity_table:
  "(isNone a \<and> isNone b \<longrightarrow> isSameIdentity a b)
   \<and> (isBool a \<and> isBool b \<longrightarrow>
        isSameIdentity a b = (as_bool (payload a) = as_bool (payload b)))
   \<and> (isTensor a \<and> isTensor b \<longrightarrow>
        isSameIdentity a b = (as_intrusive_ptr (payload a) = as_intrusive_ptr (payload b)))
   \<and> (isTensor a \<and> \<not> is_intrusive_ptr a \<and> isNone b \<longrightarrow>
        isSameIdentity a b \<and> isSameIdentity b a)
   \<and> (\<not> (isNone a \<and> isNone b) \<and> \<not> (isBool a \<and> isBool b) \<and> \<not> (isTensor a \<and> isTensor b)
        \<and> \<not> (isTensor a \<and> \<not> is_intrusive_ptr a \<and> isNone b)
        \<and> \<not> (isNone a \<and> isTensor b \<and> \<not> is_intrusive_ptr b) \<longrightarrow>
        (isSameIdentity a b \<longrightarrow>
           is_intrusive_ptr a \<and> is_intrusive_ptr b \<and>
           as_intrusive_ptr (payload a) = as_intrusive_ptr (payload b)))
   \<and> (\<not> (isNone a \<and> isNone b) \<and> \<not> (isBool a \<and> isBool b) \<and> \<not> (isTensor a \<and> isTensor b)
        \<and> \<not> (isTensor a \<and> isNone b) \<and> \<not> (isNone a \<and> isTensor b) \<longrightarrow>
        isSameIdentity a b =
          (is_intrusive_ptr a \<and> is_intrusive_ptr b \<and>
           as_intrusive_ptr (payload a) = as_intrusive_ptr (payload b)))
   \<and> (case IValue_of_vector xs h of
         (l1, h1) \<Rightarrow> (case IValue_of_vector xs h1 of (l2, h2) \<Rightarrow>
            isGenericList l1 \<and> isGenericList l2 \<and>
            toGenericListRef l1 h2 = Inr xs \<and> toGenericListRef l2 h2 = Inr xs \<and>
            \<not> isSameIdentity l1 l2 \<and> isSameIdentity l1 l1))"
  by (auto simp add: isSameIdentity_def toBool_def isNone_def isBool_def isTensor_def
      IValue_of_vector_def toList_def IValue_of_GenericListPtr_def release_def isGenericList_def
      toGenericListRef_def)


theorem isSameIdentity_table_witness:
  "isSameIdentity IValue_default IValue_default
   \<and> isSameIdentity \<lparr>payload = AsBool True, tag = Tag_Bool, is_intrusive_ptr = False\<rparr>
        \<lparr>payload = AsBool True, tag = Tag_Bool, is_intrusive_ptr = False\<rparr>
   \<and> \<not> isSameIdentity \<lparr>payload = AsBool True, tag = Tag_Bool, is_intrusive_ptr = False\<rparr>
        \<lparr>payload = AsBool False, tag = Tag_Bool, is_intrusive_ptr = False\<rparr>
   \<and> \<not> isSameIdentity \<lparr>payload = AsIntrusivePtr 2, tag = Tag_Tensor, is_intrusive_ptr = True\<rparr>
        \<lparr>payload = AsIntrusivePtr 3, tag = Tag_Tensor, is_intrusive_ptr = True\<rparr>
   \<and> isSameIdentity \<lparr>payload = AsIntrusivePtr 9, tag = Tag_Tensor, is_intrusive_ptr = False\<rparr>
        IValue_default
   \<and> isSameIdentity IValue_default
        \<lparr>payload = AsIntrusivePtr 9, tag = Tag_Tensor, is_intrusive_ptr = False\<rparr>
   \<and> \<not> isSameIdentity \<lparr>payload = AsIntrusivePtr 4, tag = Tag_String, is_intrusive_ptr = True\<rparr>
        \<lparr>payload = AsIntrusivePtr 5, tag = Tag_String, is_intrusive_ptr = True\<rparr>
   \<and> isSameIdentity \<lparr>payload = AsIntrusivePtr 4, tag = Tag_String, is_intrusive_ptr = True\<rparr>
        \<lparr>payload = AsIntrusivePtr 4, tag = Tag_String, is_intrusive_ptr = True\<rparr>"
proof -
  let ?t = "\<lparr>payload = AsBool True, tag = Tag_Bool, is_intrusive_ptr = False\<rparr>"
  let ?f = "\<lparr>payload = AsBool False, tag = Tag_Bool, is_intrusive_ptr = False\<rparr>"
  let ?d = "\<lparr>payload = AsIntrusivePtr 2, tag = Tag_Tensor, is_intrusive_ptr = True\<rparr>"
  let ?d' = "\<lparr>payload = AsIntrusivePtr 3, tag = Tag_Tensor, is_intrusive_ptr = True\<rparr>"
  let ?u = "\<lparr>payload = AsIntrusivePtr 9, tag = Tag_Tensor, is_intrusive_ptr = False\<rparr>"
  let ?s = "\<lparr>payload = AsIntrusivePtr 4, tag = Tag_String, is_intrusive_ptr = True\<rparr>"
  let ?s' = "\<lparr>payload = AsIntrusivePtr 5, tag = Tag_String, is_intrusive_ptr = True\<rparr>"
  have tags: "isNone IValue_default" "isBool ?t" "isBool ?f" "isTensor ?u" "isTensor ?d"
    "isTensor ?d'" "\<not> isNone ?s" "\<not> isBool ?s" "\<not> isTensor ?s" "\<not> isTensor ?s'"
    by (simp_all add: isNone_def isBool_def isTensor_def IValue_default_def)
  from isSameIdentity_table [of IValue_default IValue_default] tags
  have "isSameIdentity IValue_default IValue_default" by blast
  moreover from isSameIdentity_table [of ?t ?t] tags
  have "isSameIdentity ?t ?t" by simp
  moreover from isSameIdentity_table [of ?t ?f] tags
  have "\<not> isSameIdentity ?t ?f" by simp
  moreover from isSameIdentity_table [of ?d ?d'] tags
  have "\<not> isSameIdentity ?d ?d'" by simp
  moreover from isSameIdentity_table [of ?u IValue_default] tags
  have "isSameIdentity ?u IValue_default \<and> isSameIdentity IValue_default ?u" by simp
  moreover from isSameIdentity_table [of ?s ?s'] tags
  have "\<not> isSameIdentity ?s ?s'" by simp
  moreover from isSameIdentity_table [of ?s ?s] tags
  have "isSameIdentity ?s ?s" by simp
  ultimately show ?thesis by blast
qed

section \<open>Optional values\<close>

text \<open>
  Claim C7. Converting a tagged value to \<open>optional<T>\<close> gives the empty optional exactly
  when the value holds the none tag; otherwise it gives what \<open>to<T>\<close> gives, engaged, and
  fails when \<open>to<T>\<close> fails. The same holds for the member \<open>toOptional\<close>.
\<close>

theorem generic_to_optional_none_iff:
  "((\<exists>h'. generic_to_optional to_T v h = Inr (None, h')) \<longleftrightarrow> isNone v)
   \<and> (\<not> isNone v \<longrightarrow>
        generic_to_optional to_T v h =
          (case to_T v h of
             Inl e \<Rightarrow> Inl e
           | Inr (x, v', h') \<Rightarrow> Inr (Some x, IValue_destroy v' h')))
   \<and> ((\<exists>v' h'. toOptional to_T_const v h = Inr (None, v', h')) \<longleftrightarrow> isNone v)
   \<and> (\<not> isNone v \<longrightarrow>
        toOptional to_T_const v h =
          (case to_T_const v h of
             Inl e \<Rightarrow> Inl e
           | Inr (x, v', h') \<Rightarrow> Inr (Some x, v', h')))"
  by (auto simp add: generic_to_optional_def toOptional_def split: sum.splits prod.splits)

theorem generic_to_optional_none_iff_witness:
  "(\<exists>h'. generic_to_optional toTensor_rvalue IValue_default
            \<lparr>refcount = (\<lambda>a. 0), lists = (\<lambda>a. []), next_addr = 1\<rparr> = Inr (None, h'))
   \<and> generic_to_optional toTensor_rvalue
        \<lparr>payload = AsIntrusivePtr 3, tag = Tag_Tensor, is_intrusive_ptr = True\<rparr>
        \<lparr>refcount = (\<lambda>a. 0), lists = (\<lambda>a. []), next_addr = 1\<rparr>
      = Inr (Some 3, \<lparr>refcount = (\<lambda>a. 0), lists = (\<lambda>a. []), next_addr = 1\<rparr>)
   \<and> generic_to_optional toTensor_rvalue
        \<lparr>payload = AsIntrusivePtr 3, tag = Tag_String, is_intrusive_ptr = True\<rparr>
        \<lparr>refcount = (\<lambda>a. 0), lists = (\<lambda>a. []), next_addr = 1\<rparr>
      = Inl AssertionFailure
   \<and> (\<exists>v' h'. toOptional toTensor_const IValue_default
            \<lparr>refcount = (\<lambda>a. 0), lists = (\<lambda>a. []), next_addr = 1\<rparr> = Inr (None, v', h'))
   \<and> (\<exists>h'. toOptional toTensor_const
        \<lparr>payload = AsIntrusivePtr 3, tag = Tag_Tensor, is_intrusive_ptr = True\<rparr>
        \<lparr>refcount = (\<lambda>a. 0), lists = (\<lambda>a. []), next_addr = 1\<rparr>
      = Inr (Some 3, \<lparr>payload = AsIntrusivePtr 3, tag = Tag_Tensor, is_intrusive_ptr = True\<rparr>,
          h'))"
proof -
  let ?h = "\<lparr>refcount = (\<lambda>a. 0), lists = (\<lambda>a. []), next_addr = 1\<rparr>"
  let ?t = "\<lparr>payload = AsIntrusivePtr 3, tag = Tag_Tensor, is_intrusive_ptr = True\<rparr>"
  let ?s = "\<lparr>payload = AsIntrusivePtr 3, tag = Tag_String, is_intrusive_ptr = True\<rparr>"
  have n: "isNone IValue_default" "\<not> isNone ?t" "\<not> isNone ?s"
    by (simp_all add: isNone_def IValue_default_def)
  have c: "toTensor_rvalue ?t ?h = Inr (3, clearToNone ?t, ?h)"
    by (simp add: toTensor_rvalue_def isTensor_def moveToIntrusivePtr_def reclaim_def)
  have d: "IValue_destroy (clearToNone ?t) ?h = ?h"
    by (simp add: IValue_destroy_def clearToNone_def)
  have e: "toTensor_rvalue ?s ?h = Inl AssertionFailure"
    by (simp add: toTensor_rvalue_def isTensor_def)
  have k: "toTensor_const ?t ?h = Inr (3, ?t, incref 3 ?h)"
    by (simp add: toTensor_const_def isTensor_def toIntrusivePtr_def reclaim_def
        copy_intrusive_ptr_def)
  note t0 = generic_to_optional_none_iff [of toTensor_rvalue IValue_default ?h toTensor_const]
  note t1 = generic_to_optional_none_iff [of toTensor_rvalue ?t ?h toTensor_const]
  note t2 = generic_to_optional_none_iff [of toTensor_rvalue ?s ?h toTensor_const]
  from t0 n
  have "\<exists>h'. generic_to_optional toTensor_rvalue IValue_default ?h = Inr (None, h')"
    by blast
  moreover from t1 n c d
  have "generic_to_optional toTensor_rvalue ?t ?h = Inr (Some 3, ?h)"
    by simp
  moreover from t2 n e
  have "generic_to_optional toTensor_rvalue ?s ?h = Inl AssertionFailure"
    by simp
  moreover from t0 n
  have "\<exists>v' h'. toOptional toTensor_const IValue_default ?h = Inr (None, v', h')"
    by blast
  moreover from t1 n k
  have "\<exists>h'. toOptional toTensor_const ?t ?h = Inr (Some 3, ?t, h')"
    by simp
  ultimately show ?thesis
    by blast
qed

text \<open>
  Claim C10. The tagged value built from an empty optional is the none-tagged value with
  no owned pointer, whatever the constructor for \<open>T\<close>, and converting it back with
  \<open>to<optional<T>>()\<close> (either overload) or \<open>toOptional<T>()\<close> gives the empty optional
  and leaves the heap as it was, whatever the conversion for \<open>T\<close>.
\<close>

theorem empty_optional_round_trip:
  "IValue_of_optional IValue_of_T None h = (IValue_default, h)
   \<and> isNone IValue_default \<and> \<not> is_intrusive_ptr IValue_default
   \<and> to_const (generic_to_optional to_T) (fst (IValue_of_optional IValue_of_T None h))
        (snd (IValue_of_optional IValue_of_T None h)) = Inr (None, IValue_default, h)
   \<and> to_rvalue (generic_to_optional to_T) (fst (IValue_of_optional IValue_of_T None h))
        (snd (IValue_of_optional IValue_of_T None h)) = Inr (None, IValue_default, h)
   \<and> toOptional to_T_const (fst (IValue_of_optional IValue_of_T None h))
        (snd (IValue_of_optional IValue_of_T None h)) = Inr (None, IValue_default, h)"
  by (simp add: IValue_of_optional_def IValue_default_def isNone_def to_const_def to_rvalue_def
      generic_to_optional_def toOptional_def IValue_copy_def IValue_move_def IValue_destroy_def
      clearToNone_def)

section \<open>Slots of an object\<close>

lemma length_setSlot:
  "length (slots_m (setSlot i v obj)) = max (Suc i) (length (slots_m obj))"
  by (auto simp add: setSlot_def resizeObject_def Let_def)

lemma run_ops_length_mono:
  "length (slots_m obj) \<le> length (slots_m (run_ops ops obj))"
proof (induction ops arbitrary: obj)
  case Nil
  show ?case by simp
next
  case (Cons op ops)
  have "length (slots_m obj) \<le> length (slots_m (apply_op op obj))"
    by (cases op) (simp_all add: length_setSlot)
  also have "\<dots> \<le> length (slots_m (run_ops ops (apply_op op obj)))"
    by (rule Cons.IH)
  finally show ?case by simp
qed

lemma run_ops_covers_written:
  "i \<in> set (written_slots ops) \<Longrightarrow> i < length (slots_m (run_ops ops obj))"
proof (induction ops arbitrary: obj)
  case Nil
  then show ?case by simp
next
  case (Cons op ops)
  show ?case
  proof (cases op)
    case (SetSlot j w)
    show ?thesis
    proof (cases "i = j")
      case True
      have "i < length (slots_m (setSlot j w obj))"
        using True by (simp add: length_setSlot)
      also have "\<dots> \<le> length (slots_m (run_ops ops (setSlot j w obj)))"
        by (rule run_ops_length_mono)
      finally show ?thesis using SetSlot by simp
    next
      case False
      then show ?thesis using Cons SetSlot by simp
    qed
  next
    case (GetSlot j)
    then show ?thesis using Cons by simp
  qed
qed

text \<open>
  Claim C8. An object created with \<open>n\<close> slots has \<open>n\<close> slots. Writing slot \<open>i\<close> at or
  beyond the current length succeeds and grows the slots to length \<open>i + 1\<close>: the slot
  reads back the written value, the old slots keep their values and the slots in between
  are the none value; reading slot \<open>i\<close> at or beyond the length fails. The length never
  decreases, under one write and under any sequence of slot operations, and after a
  sequence it is at least every written index plus one.
\<close>

theorem setSlot_grows_getSlot_fails:
  "length (slots_m (Object_create ty n)) = n
   \<and> (length (slots_m obj) \<le> i \<longrightarrow>
        length (slots_m (setSlot i v obj)) = Suc i
        \<and> getSlot i (setSlot i v obj) = Inr v
        \<and> (\<forall>j. j < length (slots_m obj) \<longrightarrow> getSlot j (setSlot i v obj) = getSlot j obj)
        \<and> (\<forall>j. length (slots_m obj) \<le> j \<and> j < i \<longrightarrow>
              getSlot j (setSlot i v obj) = Inr IValue_default)
        \<and> getSlot i obj = Inl OutOfRange)
   \<and> length (slots_m obj) \<le> length (slots_m (setSlot i v obj))
   \<and> length (slots_m obj) \<le> length (slots_m (run_ops ops obj))
   \<and> (\<forall>k \<in> set (written_slots ops). Suc k \<le> length (slots_m (run_ops ops obj)))"
proof -
  have a: "length (slots_m (Object_create ty n)) = n"
    by (simp add: Object_create_def)
  have b: "length (slots_m obj) \<le> i \<longrightarrow>
        length (slots_m (setSlot i v obj)) = Suc i
        \<and> getSlot i (setSlot i v obj) = Inr v
        \<and> (\<forall>j. j < length (slots_m obj) \<longrightarrow> getSlot j (setSlot i v obj) = getSlot j obj)
        \<and> (\<forall>j. length (slots_m obj) \<le> j \<and> j < i \<longrightarrow>
              getSlot j (setSlot i v obj) = Inr IValue_default)
        \<and> getSlot i obj = Inl OutOfRange"
    by (auto simp add: setSlot_def resizeObject_def getSlot_def Let_def nth_append
        nth_list_update)
  have c: "length (slots_m obj) \<le> length (slots_m (setSlot i v obj))"
    by (simp add: length_setSlot)
  have d: "\<forall>k \<in> set (written_slots ops). Suc k \<le> length (slots_m (run_ops ops obj))"
    using run_ops_covers_written [of _ ops obj] by (auto simp add: Suc_le_eq)
  show ?thesis using a b c d run_ops_length_mono [of obj ops] by blast
qed

theorem setSlot_grows_getSlot_fails_witness:
  "length (slots_m (setSlot 7 \<lparr>payload = AsBool True, tag = Tag_Bool, is_intrusive_ptr = False\<rparr>
       (Object_create () 2))) = 8
   \<and> getSlot 4 (setSlot 7 \<lparr>payload = AsBool True, tag = Tag_Bool, is_intrusive_ptr = False\<rparr>
       (Object_create () 2)) = Inr IValue_default
   \<and> getSlot 7 (Object_create () 2) = Inl OutOfRange
   \<and> 6 \<le> length (slots_m (run_ops [SetSlot 5 IValue_default, GetSlot 9, SetSlot 1 IValue_default]
       (Object_create () 2)))"
proof -
  let ?o = "Object_create () 2"
  let ?v = "\<lparr>payload = AsBool True, tag = Tag_Bool, is_intrusive_ptr = False\<rparr>"
  have n: "length (slots_m ?o) = 2" by (simp add: Object_create_def)
  note t = setSlot_grows_getSlot_fails [of "()" 2 ?o 7 ?v
      "[SetSlot 5 IValue_default, GetSlot 9, SetSlot 1 IValue_default]"]
  from t n have "length (slots_m (setSlot 7 ?v ?o)) = 8" by simp
  moreover from t n have "getSlot 4 (setSlot 7 ?v ?o) = Inr IValue_default" by simp
  moreover from t n have "getSlot 7 ?o = Inl OutOfRange" by simp
  moreover from t have "6 \<le> length (slots_m (run_ops
      [SetSlot 5 IValue_default, GetSlot 9, SetSlot 1 IValue_default] ?o))" by simp
  ultimately show ?thesis by blast
qed


section \<open>Future: completion, callbacks and the stored result\<close>

subsection \<open>The mutex\<close>

lemma lock_mutex_free [simp]: "\<not> mutex_m f \<Longrightarrow> lock_mutex f = Inr (f\<lparr>mutex_m := True\<rparr>)"
  by (simp add: lock_mutex_def)

lemma lock_mutex_held [simp]: "mutex_m f \<Longrightarrow> lock_mutex f = Inl Deadlock"
  by (simp add: lock_mutex_def)

lemma unlock_mutex_locked [simp]: "unlock_mutex (f\<lparr>mutex_m := True\<rparr>) = f\<lparr>mutex_m := False\<rparr>"
  by (simp add: unlock_mutex_def)

lemma mutex_free_eq [simp]: "\<not> mutex_m f \<Longrightarrow> f\<lparr>mutex_m := False\<rparr> = f"
  by (cases f) simp

subsection \<open>What a callback raises\<close>

lemma thrown_cong:
  "has_error g = has_error f \<Longrightarrow> error g = error f \<Longrightarrow> thrown g c = thrown f c"
  by (induction c) simp_all

lemma fired_cong:
  "has_error g = has_error f \<Longrightarrow> error g = error f \<Longrightarrow> fired g cs = fired f cs"
  by (induction cs) (simp_all add: thrown_cong [of g f] split: option.splits)

lemma first_thrown_cong:
  "has_error g = has_error f \<Longrightarrow> error g = error f \<Longrightarrow> first_thrown g cs = first_thrown f cs"
  by (induction cs) (simp_all add: thrown_cong [of g f] split: option.splits)

lemma after_calls_fields [simp]:
  "mutex_m (after_calls cs f) = mutex_m f"
  "completed_m (after_calls cs f) = completed_m f"
  "value_m (after_calls cs f) = value_m f"
  "callbacks (after_calls cs f) = callbacks f"
  "has_error (after_calls cs f) = has_error f"
  "error (after_calls cs f) = error f"
  "invoked (after_calls cs f) = invoked f @ unlocked_calls cs"
  by (simp_all add: after_calls_def)

lemma after_calls_after_calls [simp]:
  "after_calls ds (after_calls cs f) = after_calls (cs @ ds) f"
  by (simp add: after_calls_def unlocked_calls_def)

lemma after_calls_Nil [simp]: "after_calls [] f = f"
  by (simp add: after_calls_def unlocked_calls_def)

lemma record_call_free: "\<not> mutex_m f \<Longrightarrow> record_call c f = after_calls [c] f"
  by (simp add: record_call_def after_calls_def unlocked_calls_def)

subsection \<open>The member functions on a pending and on a completed future\<close>

lemma value_pending: "\<not> mutex_m f \<Longrightarrow> \<not> completed f \<Longrightarrow> value f = Fatal AssertionFailure"
  by (simp add: value_def completed_def)

lemma value_error:
  "\<not> mutex_m f \<Longrightarrow> completed f \<Longrightarrow> has_error f \<Longrightarrow> value f = Throws (error f) f"
  by (simp add: value_def completed_def)

lemma value_stored:
  "\<not> mutex_m f \<Longrightarrow> completed f \<Longrightarrow> \<not> has_error f \<Longrightarrow> value f = Returns (value_m f) f"
  by (simp add: value_def completed_def)

lemma invoke_completed:
  "completed f \<Longrightarrow> \<not> mutex_m f \<Longrightarrow>
     invoke c f = ends (thrown f c) (after_calls (calls c) f)"
proof (induction c arbitrary: f)
  case (CbAddCallback c)
  let ?g = "after_calls [CbAddCallback c] f"
  have g: "completed ?g" "\<not> mutex_m ?g"
    using CbAddCallback.prems by (simp_all add: completed_def)
  have "invoke (CbAddCallback c) f = invoke c ?g"
    using CbAddCallback.prems g by (simp add: completed_def record_call_free)
  also have "\<dots> = ends (thrown ?g c) (after_calls (calls c) ?g)"
    using CbAddCallback.IH [OF g] .
  finally show ?case
    by (simp add: thrown_cong [of ?g f])
next
  case CbValue
  let ?g = "after_calls [CbValue] f"
  have g: "completed ?g" "\<not> mutex_m ?g"
    using CbValue by (simp_all add: completed_def)
  show ?case
    using CbValue g
    by (cases "has_error f") (simp_all add: record_call_free value_error value_stored)
qed (simp_all add: record_call_free completed_def)

lemma run_callbacks_completed:
  "completed f \<Longrightarrow> \<not> mutex_m f \<Longrightarrow>
     run_callbacks cs f =
       ends (first_thrown f cs) (after_calls (concat (map calls (fired f cs))) f)"
proof (induction cs arbitrary: f)
  case Nil
  then show ?case by simp
next
  case (Cons c cs)
  let ?g = "after_calls (calls c) f"
  have g: "completed ?g" "\<not> mutex_m ?g"
    using Cons.prems by (simp_all add: completed_def)
  show ?case
  proof (cases "thrown f c")
    case None
    then have "run_callbacks (c # cs) f = run_callbacks cs ?g"
      using Cons.prems by (simp add: invoke_completed)
    also have "\<dots> = ends (first_thrown ?g cs) (after_calls (concat (map calls (fired ?g cs))) ?g)"
      using Cons.IH [OF g] .
    finally show ?thesis
      using None by (simp add: fired_cong [of ?g f] first_thrown_cong [of ?g f])
  next
    case (Some x)
    then show ?thesis
      using Cons.prems by (simp add: invoke_completed)
  qed
qed

lemma fireCallbacks_completed:
  "completed f \<Longrightarrow> \<not> mutex_m f \<Longrightarrow>
     fireCallbacks f =
       (case first_thrown f (callbacks f) of
          None \<Rightarrow> Returns () ((after_calls (concat (map calls (fired f (callbacks f)))) f)
                    \<lparr>callbacks := []\<rparr>)
        | Some x \<Rightarrow> Throws x (after_calls (concat (map calls (fired f (callbacks f)))) f))"
  by (simp add: fireCallbacks_def run_callbacks_completed split: option.splits)

lemma fired_all: "first_thrown f cs = None \<Longrightarrow> fired f cs = cs"
  by (induction cs) (simp_all split: option.splits)

lemma fired_prefix: "take (length (fired f cs)) cs = fired f cs"
  by (induction cs) (simp_all split: option.splits)

lemma first_thrown_None_iff:
  "first_thrown f cs = None \<longleftrightarrow> list_all (\<lambda>c. thrown f c = None) cs"
  by (induction cs) (simp_all split: option.splits)

lemma markCompleted_pending:
  assumes "\<not> mutex_m f" "\<not> completed f"
  shows "markCompleted v f =
       (case first_thrown f (callbacks f) of
          None \<Rightarrow> Returns ()
            ((after_calls (concat (map calls (callbacks f))) f)
               \<lparr>completed_m := True, value_m := v, callbacks := []\<rparr>)
        | Some x \<Rightarrow> Throws x
            ((after_calls (concat (map calls (fired f (callbacks f)))) f)
               \<lparr>completed_m := True, value_m := v\<rparr>))"
proof -
  let ?g = "f\<lparr>completed_m := True, value_m := v\<rparr>"
  have g: "completed ?g" "\<not> mutex_m ?g"
    using assms by (simp_all add: completed_def)
  have "markCompleted v f = fireCallbacks ?g"
    using assms by (simp add: markCompleted_def completed_def unlock_mutex_def)
  then show ?thesis
    by (simp add: fireCallbacks_completed [OF g] fired_cong [of ?g f]
        first_thrown_cong [of ?g f] fired_all after_calls_def split: option.splits)
qed

lemma markCompleted_error_pending:
  assumes "\<not> mutex_m f" "\<not> completed f"
  shows "markCompleted_error e f =
       (case first_thrown (f\<lparr>has_error := True, error := e\<rparr>) (callbacks f) of
          None \<Rightarrow> Returns ()
            ((after_calls (concat (map calls (callbacks f))) f)
               \<lparr>completed_m := True, has_error := True, error := e, callbacks := []\<rparr>)
        | Some x \<Rightarrow> Throws x
            ((after_calls (concat (map calls
                 (fired (f\<lparr>has_error := True, error := e\<rparr>) (callbacks f)))) f)
               \<lparr>completed_m := True, has_error := True, error := e\<rparr>))"
proof -
  let ?g = "f\<lparr>completed_m := True, has_error := True, error := e\<rparr>"
  let ?k = "f\<lparr>has_error := True, error := e\<rparr>"
  have g: "completed ?g" "\<not> mutex_m ?g"
    using assms by (simp_all add: completed_def)
  have "markCompleted_error e f = fireCallbacks ?g"
    using assms by (simp add: markCompleted_error_def completed_def unlock_mutex_def)
  then show ?thesis
    by (simp add: fireCallbacks_completed [OF g] fired_cong [of ?g ?k]
        first_thrown_cong [of ?g ?k] fired_all after_calls_def split: option.splits)
qed

lemma markCompleted_completed:
  "\<not> mutex_m f \<Longrightarrow> completed f \<Longrightarrow> markCompleted v f = Fatal AssertionFailure"
  by (simp add: markCompleted_def completed_def)

lemma markCompleted_error_completed:
  "\<not> mutex_m f \<Longrightarrow> completed f \<Longrightarrow> markCompleted_error e f = Fatal AssertionFailure"
  by (simp add: markCompleted_error_def completed_def)

lemma addCallback_completed:
  "\<not> mutex_m f \<Longrightarrow> completed f \<Longrightarrow>
     addCallback cb f = ends (thrown f cb) (after_calls (calls cb) f)"
  by (simp add: completed_def invoke_completed)

lemma addCallback_pending:
  "\<not> mutex_m f \<Longrightarrow> \<not> completed f \<Longrightarrow>
     addCallback cb f = Returns () (f\<lparr>callbacks := callbacks f @ [cb]\<rparr>)"
  by (simp add: completed_def unlock_mutex_def)

lemma add_all_pending:
  "\<not> mutex_m f \<Longrightarrow> \<not> completed f \<Longrightarrow>
     add_all cbs f = Returns () (f\<lparr>callbacks := callbacks f @ cbs\<rparr>)"
proof (induction cbs arbitrary: f)
  case Nil
  then show ?case by simp
next
  case (Cons c cbs)
  let ?g = "f\<lparr>callbacks := callbacks f @ [c]\<rparr>"
  have g: "\<not> mutex_m ?g" "\<not> completed ?g"
    using Cons.prems by (simp_all add: completed_def)
  have "add_all (c # cbs) f = add_all cbs ?g"
    using Cons.prems by (simp add: addCallback_pending del: addCallback.simps)
  then show ?case
    by (simp add: Cons.IH [OF g])
qed

lemma wait_completed: "completed f \<Longrightarrow> wait f = Returns () f"
  by simp

lemma wait_pending:
  "\<not> mutex_m f \<Longrightarrow> \<not> completed f \<Longrightarrow>
     wait f = Blocks (f\<lparr>callbacks := callbacks f @ [CbNotify]\<rparr>)"
  by (simp add: addCallback_pending del: addCallback.simps)

lemma final_state_ends [simp]: "final_state (ends x f) = Some f"
  by (cases x) simp_all

lemma step_keeps_completed:
  assumes "completed f" "\<not> mutex_m f" and "final_state (step op f) = Some f1"
  shows "completed f1 \<and> \<not> mutex_m f1"
proof (cases op)
  case (MarkCompleted v)
  then show ?thesis using assms by (simp add: markCompleted_completed)
next
  case (MarkCompletedError x)
  then show ?thesis using assms by (simp add: markCompleted_error_completed)
next
  case (AddCallback c)
  then show ?thesis
    using assms by (auto simp add: addCallback_completed completed_def simp del: addCallback.simps)
next
  case Value
  then show ?thesis
    using assms by (cases "has_error f") (auto simp add: value_error value_stored)
next
  case Wait
  then show ?thesis using assms by auto
qed

lemma after_ops_step:
  "after_ops (op # ops) f = (case final_state (step op f) of None \<Rightarrow> None
     | Some f1 \<Rightarrow> after_ops ops f1)"
  by (cases "step op f") simp_all

lemma after_ops_keeps_completed:
  "completed f \<Longrightarrow> \<not> mutex_m f \<Longrightarrow> after_ops ops f = Some f2 \<Longrightarrow>
     completed f2 \<and> \<not> mutex_m f2"
proof (induction ops arbitrary: f)
  case Nil
  then show ?case by simp
next
  case (Cons op ops)
  from Cons.prems(3) obtain f1 where
    f1: "final_state (step op f) = Some f1" "after_ops ops f1 = Some f2"
    by (auto simp add: after_ops_step simp del: after_ops.simps split: option.splits)
  have "completed f1 \<and> \<not> mutex_m f1"
    using step_keeps_completed [OF Cons.prems(1,2) f1(1)] .
  then show ?case
    using Cons.IH [of f1] f1(2) by simp
qed

lemma reentrant_call_with_lock_held:
  "mutex_m f \<Longrightarrow> invoke CbValue f = Fatal Deadlock"
  "mutex_m f \<Longrightarrow> invoke (CbAddCallback c) f = Fatal Deadlock"
  "mutex_m f \<Longrightarrow> invoke CbNotify f = Fatal Deadlock"
  by (simp_all add: record_call_def value_def)

lemma markCompleted_leaves:
  assumes "\<not> mutex_m f" "\<not> completed f"
  shows "\<exists>f1. final_state (markCompleted v f) = Some f1
      \<and> completed f1 \<and> \<not> mutex_m f1 \<and> value_m f1 = v
      \<and> has_error f1 = has_error f \<and> error f1 = error f
      \<and> invoked f1 = invoked f @ unlocked_calls (concat (map calls (fired f (callbacks f))))"
  using assms
  by (cases "first_thrown f (callbacks f)")
    (simp_all add: markCompleted_pending fired_all completed_def)

lemma markCompleted_error_leaves:
  assumes "\<not> mutex_m f" "\<not> completed f"
  shows "\<exists>f1. final_state (markCompleted_error e f) = Some f1
      \<and> completed f1 \<and> \<not> mutex_m f1 \<and> has_error f1 \<and> error f1 = e
      \<and> invoked f1 = invoked f @ unlocked_calls (concat (map calls
           (fired (f\<lparr>has_error := True, error := e\<rparr>) (callbacks f))))"
  using assms
  by (cases "first_thrown (f\<lparr>has_error := True, error := e\<rparr>) (callbacks f)")
    (simp_all add: markCompleted_error_pending fired_all completed_def)

lemma new_calls_unlocked:
  "map fst (unlocked_calls cs) = cs"
  "list_all (\<lambda>x. \<not> snd x) (unlocked_calls cs)"
  by (simp_all add: unlocked_calls_def list_all_iff comp_def)

text \<open>
  Claim C4. With the mutex free, \<open>value()\<close> fails its assertion while the future is
  pending; on a future completed with an error it raises the stored error; on a future
  completed with a value it returns the stored value. The stored value and the stored
  error are those given to \<open>markCompleted\<close>, whether that call returned or was left by
  what a queued callback raised.
\<close>

theorem value_cases:
  assumes "\<not> mutex_m f"
  shows "(\<not> completed f \<longrightarrow> value f = Fatal AssertionFailure)
    \<and> (completed f \<and> has_error f \<longrightarrow> value f = Throws (error f) f)
    \<and> (completed f \<and> \<not> has_error f \<longrightarrow> value f = Returns (value_m f) f)
    \<and> (\<not> completed f \<and> \<not> has_error f \<longrightarrow>
         (\<exists>f1. final_state (markCompleted v f) = Some f1 \<and> value f1 = Returns v f1))
    \<and> (\<not> completed f \<longrightarrow>
         (\<exists>f1. final_state (markCompleted_error e f) = Some f1 \<and> value f1 = Throws e f1))"
proof -
  have a: "\<exists>f1. final_state (markCompleted v f) = Some f1 \<and> value f1 = Returns v f1"
    if "\<not> completed f" "\<not> has_error f"
  proof -
    from markCompleted_leaves [OF assms that(1), of v] obtain f1 where
      f1: "final_state (markCompleted v f) = Some f1" "completed f1" "\<not> mutex_m f1"
        "value_m f1 = v" "has_error f1 = has_error f"
      by blast
    then have "value f1 = Returns v f1"
      using that(2) value_stored [of f1] by simp
    with f1(1) show ?thesis by blast
  qed
  have b: "\<exists>f1. final_state (markCompleted_error e f) = Some f1 \<and> value f1 = Throws e f1"
    if "\<not> completed f"
  proof -
    from markCompleted_error_leaves [OF assms that, of e] obtain f1 where
      f1: "final_state (markCompleted_error e f) = Some f1" "completed f1" "\<not> mutex_m f1"
        "has_error f1" "error f1 = e"
      by blast
    then have "value f1 = Throws e f1"
      using value_error [of f1] by simp
    with f1(1) show ?thesis by blast
  qed
  show ?thesis
    using assms a b by (simp add: value_pending value_error value_stored)
qed

theorem value_cases_witness:
  "value \<lparr>mutex_m = False, value_m = IValue_default, completed_m = False, callbacks = [],
      has_error = False, error = FutureError [], invoked = []\<rparr> = Fatal AssertionFailure
   \<and> value \<lparr>mutex_m = False, value_m = IValue_default, completed_m = True, callbacks = [],
      has_error = True, error = FutureError ''boom'', invoked = []\<rparr>
     = Throws (FutureError ''boom'')
        \<lparr>mutex_m = False, value_m = IValue_default, completed_m = True, callbacks = [],
         has_error = True, error = FutureError ''boom'', invoked = []\<rparr>
   \<and> value \<lparr>mutex_m = False,
        value_m = \<lparr>payload = AsBool True, tag = Tag_Bool, is_intrusive_ptr = False\<rparr>,
        completed_m = True, callbacks = [], has_error = False, error = FutureError [],
        invoked = []\<rparr>
     = Returns \<lparr>payload = AsBool True, tag = Tag_Bool, is_intrusive_ptr = False\<rparr>
        \<lparr>mutex_m = False,
         value_m = \<lparr>payload = AsBool True, tag = Tag_Bool, is_intrusive_ptr = False\<rparr>,
         completed_m = True, callbacks = [], has_error = False, error = FutureError [],
         invoked = []\<rparr>
   \<and> (\<exists>f1. final_state
          (markCompleted \<lparr>payload = AsBool True, tag = Tag_Bool, is_intrusive_ptr = False\<rparr>
            \<lparr>mutex_m = False, value_m = IValue_default, completed_m = False,
             callbacks = [CbThrow (FutureError ''cb'')],
             has_error = False, error = FutureError [], invoked = []\<rparr>) = Some f1
        \<and> value f1
          = Returns \<lparr>payload = AsBool True, tag = Tag_Bool, is_intrusive_ptr = False\<rparr> f1)
   \<and> (\<exists>f1. final_state (markCompleted_error (FutureError ''boom'')
          \<lparr>mutex_m = False, value_m = IValue_default, completed_m = False,
           callbacks = [CbValue],
           has_error = False, error = FutureError [], invoked = []\<rparr>) = Some f1
        \<and> value f1 = Throws (FutureError ''boom'') f1)"
proof -
  let ?p = "\<lparr>mutex_m = False, value_m = IValue_default, completed_m = False, callbacks = [],
      has_error = False, error = FutureError [], invoked = []\<rparr>"
  let ?q = "\<lparr>mutex_m = False, value_m = IValue_default, completed_m = False,
      callbacks = [CbThrow (FutureError ''cb'')],
      has_error = False, error = FutureError [], invoked = []\<rparr>"
  let ?r = "\<lparr>mutex_m = False, value_m = IValue_default, completed_m = False,
      callbacks = [CbValue], has_error = False, error = FutureError [], invoked = []\<rparr>"
  let ?e = "\<lparr>mutex_m = False, value_m = IValue_default, completed_m = True, callbacks = [],
      has_error = True, error = FutureError ''boom'', invoked = []\<rparr>"
  let ?v = "\<lparr>mutex_m = False,
        value_m = \<lparr>payload = AsBool True, tag = Tag_Bool, is_intrusive_ptr = False\<rparr>,
        completed_m = True, callbacks = [], has_error = False, error = FutureError [],
        invoked = []\<rparr>"
  let ?b = "\<lparr>payload = AsBool True, tag = Tag_Bool, is_intrusive_ptr = False\<rparr>"
  have "value ?p = Fatal AssertionFailure"
    using value_cases [of ?p] by (simp add: completed_def)
  moreover have "value ?e = Throws (FutureError ''boom'') ?e"
    using value_cases [of ?e] by (simp add: completed_def)
  moreover have "value ?v = Returns ?b ?v"
    using value_cases [of ?v] by (simp add: completed_def)
  moreover have "\<exists>f1. final_state (markCompleted ?b ?q) = Some f1 \<and> value f1 = Returns ?b f1"
    using value_cases [of ?q ?b] by (simp add: completed_def)
  moreover have "\<exists>f1. final_state (markCompleted_error (FutureError ''boom'') ?r) = Some f1
      \<and> value f1 = Throws (FutureError ''boom'') f1"
    using value_cases [of ?r _ "FutureError ''boom''"] by (simp add: completed_def)
  ultimately show ?thesis by blast
qed

text \<open>
  Claim C2. On a completed future both overloads of \<open>markCompleted\<close> fail the assertion.
  On a pending future the first call, with a value or with an error, passes the assertion
  and completes the future (it returns, or is left by what a queued callback raises);
  after it, whatever calls the caller makes that return or raise, every further call of
  either overload fails the assertion.
\<close>

theorem markCompleted_twice_fatal:
  assumes "\<not> mutex_m f"
  shows "(completed f \<longrightarrow>
        markCompleted v f = Fatal AssertionFailure
        \<and> markCompleted_error e f = Fatal AssertionFailure)
    \<and> (\<not> completed f \<longrightarrow>
        (\<exists>f1. final_state (markCompleted v f) = Some f1
           \<and> (\<forall>ops f2. after_ops ops f1 = Some f2 \<longrightarrow>
                 markCompleted v' f2 = Fatal AssertionFailure
                 \<and> markCompleted_error e' f2 = Fatal AssertionFailure))
        \<and> (\<exists>f1. final_state (markCompleted_error e f) = Some f1
           \<and> (\<forall>ops f2. after_ops ops f1 = Some f2 \<longrightarrow>
                 markCompleted v' f2 = Fatal AssertionFailure
                 \<and> markCompleted_error e' f2 = Fatal AssertionFailure)))"
proof -
  have later: "markCompleted v' f2 = Fatal AssertionFailure
      \<and> markCompleted_error e' f2 = Fatal AssertionFailure"
    if "completed f1" "\<not> mutex_m f1" "after_ops ops f1 = Some f2" for f1 f2 ops
    using after_ops_keeps_completed [OF that]
    by (simp add: markCompleted_completed markCompleted_error_completed)
  show ?thesis
  proof (cases "completed f")
    case True
    then show ?thesis
      using assms by (simp add: markCompleted_completed markCompleted_error_completed)
  next
    case False
    from markCompleted_leaves [OF assms False, of v] obtain a where
      a: "final_state (markCompleted v f) = Some a" "completed a" "\<not> mutex_m a"
      by blast
    from markCompleted_error_leaves [OF assms False, of e] obtain b where
      b: "final_state (markCompleted_error e f) = Some b" "completed b" "\<not> mutex_m b"
      by blast
    show ?thesis
      using False a(1) b(1) later [OF a(2,3)] later [OF b(2,3)] by blast
  qed
qed

theorem markCompleted_twice_fatal_witness:
  "(\<exists>f1. final_state (markCompleted IValue_default
        \<lparr>mutex_m = False, value_m = IValue_default, completed_m = False, callbacks = [],
         has_error = False, error = FutureError [], invoked = []\<rparr>) = Some f1
      \<and> markCompleted IValue_default f1 = Fatal AssertionFailure
      \<and> markCompleted_error (FutureError ''late'') f1 = Fatal AssertionFailure)
   \<and> (\<exists>f1. final_state (markCompleted_error (FutureError ''boom'')
        \<lparr>mutex_m = False, value_m = IValue_default, completed_m = False, callbacks = [],
         has_error = False, error = FutureError [], invoked = []\<rparr>) = Some f1
      \<and> markCompleted IValue_default f1 = Fatal AssertionFailure
      \<and> markCompleted_error (FutureError ''late'') f1 = Fatal AssertionFailure)
   \<and> markCompleted IValue_default
        \<lparr>mutex_m = False, value_m = IValue_default, completed_m = True, callbacks = [],
         has_error = True, error = FutureError ''boom'', invoked = []\<rparr>
      = Fatal AssertionFailure
   \<and> markCompleted_error (FutureError ''late'')
        \<lparr>mutex_m = False, value_m = IValue_default, completed_m = True, callbacks = [],
         has_error = True, error = FutureError ''boom'', invoked = []\<rparr>
      = Fatal AssertionFailure"
proof -
  let ?p = "\<lparr>mutex_m = False, value_m = IValue_default, completed_m = False, callbacks = [],
      has_error = False, error = FutureError [], invoked = []\<rparr>"
  let ?c = "\<lparr>mutex_m = False, value_m = IValue_default, completed_m = True, callbacks = [],
      has_error = True, error = FutureError ''boom'', invoked = []\<rparr>"
  have p: "\<not> mutex_m ?p" "\<not> completed ?p" and c: "\<not> mutex_m ?c" "completed ?c"
    by (simp_all add: completed_def)
  have nil: "after_ops [] g = Some g" for g
    by simp
  from markCompleted_twice_fatal [OF p(1), of IValue_default "FutureError ''boom''"
      IValue_default "FutureError ''late''"] p(2) nil
  have "(\<exists>f1. final_state (markCompleted IValue_default ?p) = Some f1
      \<and> markCompleted IValue_default f1 = Fatal AssertionFailure
      \<and> markCompleted_error (FutureError ''late'') f1 = Fatal AssertionFailure)
   \<and> (\<exists>f1. final_state (markCompleted_error (FutureError ''boom'') ?p) = Some f1
      \<and> markCompleted IValue_default f1 = Fatal AssertionFailure
      \<and> markCompleted_error (FutureError ''late'') f1 = Fatal AssertionFailure)"
    by blast
  moreover from markCompleted_twice_fatal [OF c(1), of IValue_default "FutureError ''late''"] c(2)
  have "markCompleted IValue_default ?c = Fatal AssertionFailure
      \<and> markCompleted_error (FutureError ''late'') ?c = Fatal AssertionFailure"
    by blast
  ultimately show ?thesis by blast
qed

text \<open>
  Claim C3, as stated, fails: not every queued callback is called when \<open>markCompleted\<close>
  runs. Two callbacks are registered on a pending future, the first reading \<open>value()\<close>;
  the future is completed with an error. The first callback is called and raises the
  stored error, which leaves \<open>fireCallbacks\<close> and \<open>markCompleted\<close>: the second callback
  is never called and the queue is not cleared.
\<close>

theorem raising_callback_ends_firing:
  "add_all [CbValue, CbPlain 1]
      \<lparr>mutex_m = False, value_m = IValue_default, completed_m = False, callbacks = [],
       has_error = False, error = FutureError [], invoked = []\<rparr>
     = Returns ()
        \<lparr>mutex_m = False, value_m = IValue_default, completed_m = False,
         callbacks = [CbValue, CbPlain 1], has_error = False, error = FutureError [],
         invoked = []\<rparr>
   \<and> markCompleted_error (FutureError ''boom'')
        \<lparr>mutex_m = False, value_m = IValue_default, completed_m = False,
         callbacks = [CbValue, CbPlain 1], has_error = False, error = FutureError [],
         invoked = []\<rparr>
     = Throws (FutureError ''boom'')
        \<lparr>mutex_m = False, value_m = IValue_default, completed_m = True,
         callbacks = [CbValue, CbPlain 1], has_error = True, error = FutureError ''boom'',
         invoked = [(CbValue, False)]\<rparr>"
  by (simp add: markCompleted_error_def fireCallbacks_def completed_def value_def
      record_call_def lock_mutex_def unlock_mutex_def)

text \<open>
  Claim C3, amended. On a completed future \<open>addCallback(cb)\<close> calls \<open>cb\<close> before it
  returns, does not queue it, and raises what \<open>cb\<close> raises; on a pending future it queues
  \<open>cb\<close> behind the callbacks already queued and calls nothing. When a pending future is
  completed, with a value or with an error, the queued callbacks are called in the order
  of registration, each at most once, up to and with the first that raises. If none
  raises, every queued callback has been called once and the queue is left empty;
  otherwise \<open>markCompleted\<close> raises what that callback raised, the callbacks queued behind
  it are not called and the queue is left as it was.
\<close>

theorem callbacks_fire_in_order_until_raise:
  assumes "\<not> mutex_m f"
  shows "(completed f \<longrightarrow>
        addCallback cb f = ends (thrown f cb) (after_calls (calls cb) f)
        \<and> hd (calls cb) = cb \<and> callbacks (after_calls (calls cb) f) = callbacks f)
    \<and> (\<not> completed f \<longrightarrow>
        addCallback cb f = Returns () (f\<lparr>callbacks := callbacks f @ [cb]\<rparr>)
        \<and> add_all cbs f = Returns () (f\<lparr>callbacks := callbacks f @ cbs\<rparr>))
    \<and> (\<not> completed f \<longrightarrow>
        markCompleted v f =
          (case first_thrown f (callbacks f) of
             None \<Rightarrow> Returns ()
               ((after_calls (concat (map calls (callbacks f))) f)
                  \<lparr>completed_m := True, value_m := v, callbacks := []\<rparr>)
           | Some x \<Rightarrow> Throws x
               ((after_calls (concat (map calls (fired f (callbacks f)))) f)
                  \<lparr>completed_m := True, value_m := v\<rparr>)))
    \<and> (\<not> completed f \<longrightarrow>
        markCompleted_error e f =
          (case first_thrown (f\<lparr>has_error := True, error := e\<rparr>) (callbacks f) of
             None \<Rightarrow> Returns ()
               ((after_calls (concat (map calls (callbacks f))) f)
                  \<lparr>completed_m := True, has_error := True, error := e, callbacks := []\<rparr>)
           | Some x \<Rightarrow> Throws x
               ((after_calls (concat (map calls
                    (fired (f\<lparr>has_error := True, error := e\<rparr>) (callbacks f)))) f)
                  \<lparr>completed_m := True, has_error := True, error := e\<rparr>)))
    \<and> take (length (fired g q)) q = fired g q
    \<and> (first_thrown g q = None) = list_all (\<lambda>c. thrown g c = None) q
    \<and> (first_thrown g q = None \<longrightarrow> fired g q = q)"
proof -
  have h: "hd (calls cb) = cb"
    by (cases cb) simp_all
  have c: "completed f \<Longrightarrow> addCallback cb f = ends (thrown f cb) (after_calls (calls cb) f)"
    using assms by (rule addCallback_completed)
  have p: "\<not> completed f \<Longrightarrow>
      addCallback cb f = Returns () (f\<lparr>callbacks := callbacks f @ [cb]\<rparr>)"
    using assms by (rule addCallback_pending)
  have r: "\<not> completed f \<Longrightarrow> add_all cbs f = Returns () (f\<lparr>callbacks := callbacks f @ cbs\<rparr>)"
    using assms by (rule add_all_pending)
  note m = markCompleted_pending [OF assms, of v]
  note n = markCompleted_error_pending [OF assms, of e]
  show ?thesis
    using h c p r m n fired_prefix [of g q] first_thrown_None_iff [of g q] fired_all [of g q]
    by (simp del: addCallback.simps)
qed

theorem callbacks_fire_in_order_until_raise_witness:
  "addCallback (CbPlain 3)
      \<lparr>mutex_m = False, value_m = IValue_default, completed_m = True, callbacks = [],
       has_error = False, error = FutureError [], invoked = []\<rparr>
     = Returns ()
        \<lparr>mutex_m = False, value_m = IValue_default, completed_m = True, callbacks = [],
         has_error = False, error = FutureError [], invoked = [(CbPlain 3, False)]\<rparr>
   \<and> addCallback (CbPlain 3)
      \<lparr>mutex_m = False, value_m = IValue_default, completed_m = False, callbacks = [CbWait],
       has_error = False, error = FutureError [], invoked = []\<rparr>
     = Returns ()
        \<lparr>mutex_m = False, value_m = IValue_default, completed_m = False,
         callbacks = [CbWait, CbPlain 3], has_error = False, error = FutureError [],
         invoked = []\<rparr>
   \<and> markCompleted IValue_default
        \<lparr>mutex_m = False, value_m = IValue_default, completed_m = False,
         callbacks = [CbPlain 1, CbAddCallback (CbPlain 2), CbValue, CbPlain 3],
         has_error = False, error = FutureError [], invoked = []\<rparr>
     = Returns ()
        \<lparr>mutex_m = False, value_m = IValue_default, completed_m = True, callbacks = [],
         has_error = False, error = FutureError [],
         invoked = [(CbPlain 1, False), (CbAddCallback (CbPlain 2), False), (CbPlain 2, False),
           (CbValue, False), (CbPlain 3, False)]\<rparr>
   \<and> markCompleted_error (FutureError ''boom'')
        \<lparr>mutex_m = False, value_m = IValue_default, completed_m = False,
         callbacks = [CbPlain 1, CbAddCallback (CbPlain 2), CbValue, CbPlain 3],
         has_error = False, error = FutureError [], invoked = []\<rparr>
     = Throws (FutureError ''boom'')
        \<lparr>mutex_m = False, value_m = IValue_default, completed_m = True,
         callbacks = [CbPlain 1, CbAddCallback (CbPlain 2), CbValue, CbPlain 3],
         has_error = True, error = FutureError ''boom'',
         invoked = [(CbPlain 1, False), (CbAddCallback (CbPlain 2), False), (CbPlain 2, False),
           (CbValue, False)]\<rparr>"
proof -
  let ?c = "\<lparr>mutex_m = False, value_m = IValue_default, completed_m = True, callbacks = [],
       has_error = False, error = FutureError [], invoked = []\<rparr>"
  let ?w = "\<lparr>mutex_m = False, value_m = IValue_default, completed_m = False,
       callbacks = [CbWait], has_error = False, error = FutureError [], invoked = []\<rparr>"
  let ?p = "\<lparr>mutex_m = False, value_m = IValue_default, completed_m = False,
       callbacks = [CbPlain 1, CbAddCallback (CbPlain 2), CbValue, CbPlain 3],
       has_error = False, error = FutureError [], invoked = []\<rparr>"
  have s: "\<not> mutex_m ?c" "completed ?c" "\<not> mutex_m ?p" "\<not> completed ?p"
    "\<not> mutex_m ?w" "\<not> completed ?w"
    by (simp_all add: completed_def)
  from callbacks_fire_in_order_until_raise [OF s(1), of "CbPlain 3"] s(2)
  have "addCallback (CbPlain 3) ?c
      = ends (thrown ?c (CbPlain 3)) (after_calls (calls (CbPlain 3)) ?c)"
    by blast
  then have a: "addCallback (CbPlain 3) ?c = Returns ()
        \<lparr>mutex_m = False, value_m = IValue_default, completed_m = True, callbacks = [],
         has_error = False, error = FutureError [], invoked = [(CbPlain 3, False)]\<rparr>"
    by (simp add: unlocked_calls_def after_calls_def del: addCallback.simps)
  from callbacks_fire_in_order_until_raise [OF s(5), of "CbPlain 3"] s(6)
  have "addCallback (CbPlain 3) ?w = Returns () (?w\<lparr>callbacks := callbacks ?w @ [CbPlain 3]\<rparr>)"
    by blast
  then have q: "addCallback (CbPlain 3) ?w = Returns ()
        \<lparr>mutex_m = False, value_m = IValue_default, completed_m = False,
         callbacks = [CbWait, CbPlain 3], has_error = False, error = FutureError [],
         invoked = []\<rparr>"
    by (simp del: addCallback.simps)
  note t = callbacks_fire_in_order_until_raise [OF s(3), of _ _ IValue_default
      "FutureError ''boom''"]
  from t s(4) have "markCompleted IValue_default ?p =
          (case first_thrown ?p (callbacks ?p) of
             None \<Rightarrow> Returns ()
               ((after_calls (concat (map calls (callbacks ?p))) ?p)
                  \<lparr>completed_m := True, value_m := IValue_default, callbacks := []\<rparr>)
           | Some x \<Rightarrow> Throws x
               ((after_calls (concat (map calls (fired ?p (callbacks ?p)))) ?p)
                  \<lparr>completed_m := True, value_m := IValue_default\<rparr>))"
    by blast
  then have m: "markCompleted IValue_default ?p = Returns ()
        \<lparr>mutex_m = False, value_m = IValue_default, completed_m = True, callbacks = [],
         has_error = False, error = FutureError [],
         invoked = [(CbPlain 1, False), (CbAddCallback (CbPlain 2), False), (CbPlain 2, False),
           (CbValue, False), (CbPlain 3, False)]\<rparr>"
    by (simp add: unlocked_calls_def after_calls_def)
  from t s(4) have "markCompleted_error (FutureError ''boom'') ?p =
          (case first_thrown (?p\<lparr>has_error := True, error := FutureError ''boom''\<rparr>)
               (callbacks ?p) of
             None \<Rightarrow> Returns ()
               ((after_calls (concat (map calls (callbacks ?p))) ?p)
                  \<lparr>completed_m := True, has_error := True, error := FutureError ''boom'',
                    callbacks := []\<rparr>)
           | Some x \<Rightarrow> Throws x
               ((after_calls (concat (map calls
                    (fired (?p\<lparr>has_error := True, error := FutureError ''boom''\<rparr>)
                       (callbacks ?p)))) ?p)
                  \<lparr>completed_m := True, has_error := True, error := FutureError ''boom''\<rparr>))"
    by blast
  then have n: "markCompleted_error (FutureError ''boom'') ?p = Throws (FutureError ''boom'')
        \<lparr>mutex_m = False, value_m = IValue_default, completed_m = True,
         callbacks = [CbPlain 1, CbAddCallback (CbPlain 2), CbValue, CbPlain 3],
         has_error = True, error = FutureError ''boom'',
         invoked = [(CbPlain 1, False), (CbAddCallback (CbPlain 2), False), (CbPlain 2, False),
           (CbValue, False)]\<rparr>"
    by (simp add: unlocked_calls_def after_calls_def)
  from a q m n show ?thesis by blast
qed

text \<open>
  Claim C9. No callback body runs while the mutex is held. \<open>markCompleted\<close> on a pending
  future ends (it returns, or raises what a callback raised) with the mutex free, and
  every call it made, of the queued callbacks and of the callbacks these register, found
  the mutex free; when no queued callback raises it returns and has called them all. So
  does \<open>addCallback\<close> on a completed future. A body that calls \<open>addCallback\<close>, \<open>wait\<close> or
  \<open>value\<close> on the same completed future does not deadlock: the call returns, or \<open>value\<close>
  raises the stored error. (With the mutex held such a call would not return, lemma
  \<open>reentrant_call_with_lock_held\<close>.)
\<close>

theorem callbacks_run_unlocked:
  assumes "\<not> mutex_m f"
  shows "(\<not> completed f \<longrightarrow>
        (\<exists>f1. final_state (markCompleted v f) = Some f1 \<and> \<not> mutex_m f1
           \<and> map fst (drop (length (invoked f)) (invoked f1))
               = concat (map calls (fired f (callbacks f)))
           \<and> list_all (\<lambda>x. \<not> snd x) (drop (length (invoked f)) (invoked f1)))
        \<and> (\<exists>f1. final_state (markCompleted_error e f) = Some f1 \<and> \<not> mutex_m f1
           \<and> map fst (drop (length (invoked f)) (invoked f1))
               = concat (map calls (fired (f\<lparr>has_error := True, error := e\<rparr>) (callbacks f)))
           \<and> list_all (\<lambda>x. \<not> snd x) (drop (length (invoked f)) (invoked f1))))
    \<and> (\<not> completed f \<and> list_all (\<lambda>c. thrown f c = None) (callbacks f) \<longrightarrow>
        (\<exists>f1. markCompleted v f = Returns () f1 \<and> \<not> mutex_m f1
           \<and> map fst (drop (length (invoked f)) (invoked f1)) = concat (map calls (callbacks f))
           \<and> list_all (\<lambda>x. \<not> snd x) (drop (length (invoked f)) (invoked f1))))
    \<and> (completed f \<longrightarrow>
        (\<exists>f1. final_state (addCallback cb f) = Some f1 \<and> \<not> mutex_m f1
           \<and> map fst (drop (length (invoked f)) (invoked f1)) = calls cb
           \<and> list_all (\<lambda>x. \<not> snd x) (drop (length (invoked f)) (invoked f1)))
        \<and> (\<exists>f1. final_state (invoke (CbAddCallback cb) f) = Some f1 \<and> \<not> mutex_m f1)
        \<and> (\<exists>f1. invoke CbWait f = Returns () f1 \<and> \<not> mutex_m f1)
        \<and> (\<exists>f1. invoke CbValue f
                  = (if has_error f then Throws (error f) f1 else Returns () f1)
              \<and> \<not> mutex_m f1))"
proof (cases "completed f")
  case True
  have "addCallback cb f = ends (thrown f cb) (after_calls (calls cb) f)"
    using assms True by (rule addCallback_completed)
  moreover have "invoke c f = ends (thrown f c) (after_calls (calls c) f)"
    for c using True assms by (rule invoke_completed)
  ultimately show ?thesis
    using True assms by (simp add: new_calls_unlocked del: addCallback.simps invoke.simps)
next
  case False
  from markCompleted_leaves [OF assms False, of v] obtain a where
    a: "final_state (markCompleted v f) = Some a" "\<not> mutex_m a"
      "invoked a = invoked f @ unlocked_calls (concat (map calls (fired f (callbacks f))))"
    by blast
  from markCompleted_error_leaves [OF assms False, of e] obtain b where
    b: "final_state (markCompleted_error e f) = Some b" "\<not> mutex_m b"
      "invoked b = invoked f @ unlocked_calls (concat (map calls
           (fired (f\<lparr>has_error := True, error := e\<rparr>) (callbacks f))))"
    by blast
  have r: "\<exists>f1. markCompleted v f = Returns () f1 \<and> \<not> mutex_m f1
           \<and> map fst (drop (length (invoked f)) (invoked f1)) = concat (map calls (callbacks f))
           \<and> list_all (\<lambda>x. \<not> snd x) (drop (length (invoked f)) (invoked f1))"
    if "list_all (\<lambda>c. thrown f c = None) (callbacks f)"
  proof -
    have "first_thrown f (callbacks f) = None"
      using that by (simp add: first_thrown_None_iff)
    then show ?thesis
      using assms False by (simp add: markCompleted_pending new_calls_unlocked)
  qed
  have "\<exists>f1. final_state (markCompleted v f) = Some f1 \<and> \<not> mutex_m f1
           \<and> map fst (drop (length (invoked f)) (invoked f1))
               = concat (map calls (fired f (callbacks f)))
           \<and> list_all (\<lambda>x. \<not> snd x) (drop (length (invoked f)) (invoked f1))"
    using a by (simp add: new_calls_unlocked)
  moreover have "\<exists>f1. final_state (markCompleted_error e f) = Some f1 \<and> \<not> mutex_m f1
           \<and> map fst (drop (length (invoked f)) (invoked f1))
               = concat (map calls (fired (f\<lparr>has_error := True, error := e\<rparr>) (callbacks f)))
           \<and> list_all (\<lambda>x. \<not> snd x) (drop (length (invoked f)) (invoked f1))"
    using b by (simp add: new_calls_unlocked)
  ultimately show ?thesis
    using False r by blast
qed

theorem callbacks_run_unlocked_witness:
  "(\<exists>f1. final_state (markCompleted_error (FutureError ''boom'')
        \<lparr>mutex_m = False, value_m = IValue_default, completed_m = False,
         callbacks = [CbAddCallback CbWait, CbWait, CbValue, CbPlain 1],
         has_error = False, error = FutureError [], invoked = []\<rparr>) = Some f1
      \<and> \<not> mutex_m f1
      \<and> map fst (invoked f1) = [CbAddCallback CbWait, CbWait, CbWait, CbValue]
      \<and> list_all (\<lambda>x. \<not> snd x) (invoked f1))
   \<and> (\<exists>f1. markCompleted IValue_default
        \<lparr>mutex_m = False, value_m = IValue_default, completed_m = False,
         callbacks = [CbAddCallback CbValue, CbWait, CbValue, CbPlain 1],
         has_error = False, error = FutureError [], invoked = []\<rparr> = Returns () f1
      \<and> \<not> mutex_m f1
      \<and> map fst (invoked f1) = [CbAddCallback CbValue, CbValue, CbWait, CbValue, CbPlain 1]
      \<and> list_all (\<lambda>x. \<not> snd x) (invoked f1))
   \<and> (\<exists>f1. final_state (addCallback (CbAddCallback CbWait)
        \<lparr>mutex_m = False, value_m = IValue_default, completed_m = True, callbacks = [],
         has_error = False, error = FutureError [], invoked = []\<rparr>) = Some f1
      \<and> \<not> mutex_m f1
      \<and> map fst (invoked f1) = [CbAddCallback CbWait, CbWait]
      \<and> list_all (\<lambda>x. \<not> snd x) (invoked f1))
   \<and> (\<exists>f1. invoke CbValue
        \<lparr>mutex_m = False, value_m = IValue_default, completed_m = True, callbacks = [],
         has_error = False, error = FutureError [], invoked = []\<rparr> = Returns () f1
      \<and> \<not> mutex_m f1)"
proof -
  let ?p = "\<lparr>mutex_m = False, value_m = IValue_default, completed_m = False,
         callbacks = [CbAddCallback CbWait, CbWait, CbValue, CbPlain 1],
         has_error = False, error = FutureError [], invoked = []\<rparr>"
  let ?q = "\<lparr>mutex_m = False, value_m = IValue_default, completed_m = False,
         callbacks = [CbAddCallback CbValue, CbWait, CbValue, CbPlain 1],
         has_error = False, error = FutureError [], invoked = []\<rparr>"
  let ?c = "\<lparr>mutex_m = False, value_m = IValue_default, completed_m = True, callbacks = [],
         has_error = False, error = FutureError [], invoked = []\<rparr>"
  have s: "\<not> mutex_m ?p" "\<not> completed ?p" "\<not> mutex_m ?c" "completed ?c"
    "\<not> mutex_m ?q" "\<not> completed ?q" "list_all (\<lambda>c. thrown ?q c = None) (callbacks ?q)"
    "\<not> has_error ?c"
    by (simp_all add: completed_def)
  from callbacks_run_unlocked [OF s(1), of _ "FutureError ''boom''"] s(2)
  obtain f1 where "final_state (markCompleted_error (FutureError ''boom'') ?p) = Some f1"
    "\<not> mutex_m f1"
    "map fst (drop (length (invoked ?p)) (invoked f1)) = concat (map calls
       (fired (?p\<lparr>has_error := True, error := FutureError ''boom''\<rparr>) (callbacks ?p)))"
    "list_all (\<lambda>x. \<not> snd x) (drop (length (invoked ?p)) (invoked f1))"
    by blast
  then have a: "\<exists>f1. final_state (markCompleted_error (FutureError ''boom'') ?p) = Some f1
      \<and> \<not> mutex_m f1
      \<and> map fst (invoked f1) = [CbAddCallback CbWait, CbWait, CbWait, CbValue]
      \<and> list_all (\<lambda>x. \<not> snd x) (invoked f1)"
    by simp
  from callbacks_run_unlocked [OF s(5), of IValue_default] s(6,7)
  obtain f3 where "markCompleted IValue_default ?q = Returns () f3"
    "\<not> mutex_m f3"
    "map fst (drop (length (invoked ?q)) (invoked f3)) = concat (map calls (callbacks ?q))"
    "list_all (\<lambda>x. \<not> snd x) (drop (length (invoked ?q)) (invoked f3))"
    by blast
  then have d: "\<exists>f1. markCompleted IValue_default ?q = Returns () f1
      \<and> \<not> mutex_m f1
      \<and> map fst (invoked f1) = [CbAddCallback CbValue, CbValue, CbWait, CbValue, CbPlain 1]
      \<and> list_all (\<lambda>x. \<not> snd x) (invoked f1)"
    by simp
  from callbacks_run_unlocked [OF s(3), of _ _ "CbAddCallback CbWait"] s(4)
  obtain f2 where "final_state (addCallback (CbAddCallback CbWait) ?c) = Some f2"
    "\<not> mutex_m f2"
    "map fst (drop (length (invoked ?c)) (invoked f2)) = calls (CbAddCallback CbWait)"
    "list_all (\<lambda>x. \<not> snd x) (drop (length (invoked ?c)) (invoked f2))"
    by blast
  then have b: "\<exists>f1. final_state (addCallback (CbAddCallback CbWait) ?c) = Some f1
      \<and> \<not> mutex_m f1
      \<and> map fst (invoked f1) = [CbAddCallback CbWait, CbWait]
      \<and> list_all (\<lambda>x. \<not> snd x) (invoked f1)"
    by (simp del: addCallback.simps)
  from callbacks_run_unlocked [OF s(3)] s(4)
  obtain f4 where "invoke CbValue ?c
      = (if has_error ?c then Throws (error ?c) f4 else Returns () f4)" "\<not> mutex_m f4"
    by blast
  then have c: "\<exists>f1. invoke CbValue ?c = Returns () f1 \<and> \<not> mutex_m f1"
    using s(8) by (simp del: invoke.simps)
  from a d b c show ?thesis by blast
qed

section \<open>A list as an owned vector\<close>

lemma push_back_all_reads_as:
  "reads_as read elem_of' \<Longrightarrow> push_back_all read xs a vs h = Inr (vs', h') \<Longrightarrow>
     lists h' = lists h \<and> next_vec vs' = next_vec vs
     \<and> vec vs' = (vec vs)(a := vec vs a @ map elem_of' xs)"
proof (induction xs arbitrary: vs h)
  case Nil
  then show ?case by simp
next
  case (Cons x xs)
  from Cons.prems(2) obtain v x' h1 where
    x: "read x h = Inr (v, x', h1)" and
    rest: "push_back_all read xs a (push_back a v vs) h1 = Inr (vs', h')"
    by (auto split: sum.splits prod.splits)
  note ih = Cons.IH [OF Cons.prems(1) rest]
  have "v = elem_of' x \<and> lists h1 = lists h"
    using Cons.prems(1) x unfolding reads_as_def by blast
  then show ?case
    using ih by (auto simp add: push_back_def fun_eq_iff)
qed

lemma push_back_all_converts:
  "converts_all read xs \<Longrightarrow> \<exists>vs' h'. push_back_all read xs a vs h = Inr (vs', h')"
proof (induction xs arbitrary: vs h)
  case Nil
  show ?case by simp
next
  case (Cons x xs)
  from Cons.prems obtain v x' h1 where x: "read x h = Inr (v, x', h1)"
    unfolding converts_all_def by (metis list.set_intros(1) prod_cases3)
  have "converts_all read xs"
    using Cons.prems unfolding converts_all_def by simp
  from Cons.IH [OF this, of "push_back a v vs" h1] show ?case
    using x by simp
qed

lemmas const_accessors = toTensor_const_def toString_const_def toObject_const_def
  toFuture_const_def toBlob_const_def toIntrusivePtr_def reclaim_def copy_intrusive_ptr_def
  incref_def Let_def toInt_def toDouble_def toBool_def isInt_def isDouble_def isBool_def
  isTensor_def isString_def isObject_def isFuture_def isBlob_def

lemma to_Elem_reads_as: "reads_as (to_Elem ty) (elem_of ty)"
  unfolding reads_as_def
  by (cases ty) (auto simp add: const_accessors split: if_splits sum.splits)

lemma to_Elem_converts_all: "readable ty xs \<Longrightarrow> converts_all (to_Elem ty) xs"
  unfolding readable_def converts_all_def list_all_iff
  by (cases ty) (auto simp add: const_accessors)

lemma to_Elem_wrong_tag: "tag x \<noteq> elem_tag ty \<Longrightarrow> to_Elem ty x h = Inl AssertionFailure"
  by (cases ty) (auto simp add: const_accessors)

lemma to_ListPtr_rvalue_tag:
  "tag v = list_tag ty \<Longrightarrow>
     to_ListPtr_rvalue ty v h = Inr (as_intrusive_ptr (payload v), clearToNone v, h)"
  by (cases ty)
    (simp_all add: toIntList_rvalue_def toDoubleList_rvalue_def toBoolList_rvalue_def
      toTensorList_rvalue_def isIntList_def isDoubleList_def isBoolList_def isTensorList_def
      to_rvalue_def IValue_move_def generic_to_ListPtr_def toGenericList_rvalue_def
      isGenericList_def moveToIntrusivePtr_def reclaim_def toTypedList_def IValue_destroy_def
      clearToNone_def)

lemma to_ListPtr_rvalue_wrong_tag:
  "tag v \<noteq> list_tag ty \<Longrightarrow> to_ListPtr_rvalue ty v h = Inl AssertionFailure"
  by (cases ty)
    (simp_all add: toIntList_rvalue_def toDoubleList_rvalue_def toBoolList_rvalue_def
      toTensorList_rvalue_def isIntList_def isDoubleList_def isBoolList_def isTensorList_def
      to_rvalue_def IValue_move_def generic_to_ListPtr_def toGenericList_rvalue_def
      isGenericList_def clearToNone_def)

lemma generic_to_vector_wrong_tag:
  "tag v \<noteq> list_tag ty \<Longrightarrow> to_const (generic_to_vector ty vs) v h = Inl AssertionFailure"
  by (simp add: to_const_def generic_to_vector_def to_ListPtr_rvalue_wrong_tag IValue_copy_def)

lemma to_const_generic_to_vector:
  assumes "tag v = list_tag ty"
  shows "to_const (generic_to_vector ty vs) v h =
     (case push_back_all (to_Elem ty)
             (lists (snd (IValue_copy v h)) (as_intrusive_ptr (payload v)))
             (next_vec vs) (snd (new_vector vs)) (snd (IValue_copy v h)) of
        Inl e \<Rightarrow> Inl e
      | Inr (vs2, h2) \<Rightarrow>
          Inr ((next_vec vs, vs2), v, decref (as_intrusive_ptr (payload v)) h2))"
  using assms
  by (simp add: to_const_def generic_to_vector_def to_ListPtr_rvalue_tag IValue_destroy_def
      clearToNone_def IValue_copy_def new_vector_def split: sum.splits prod.splits)

lemma lists_IValue_copy [simp]: "lists (snd (IValue_copy v h)) = lists h"
  by (simp add: IValue_copy_def incref_def)

lemma lists_decref [simp]: "lists (decref p h) = lists h"
  by (simp add: decref_def)

lemma to_const_generic_to_vector_result:
  assumes "tag v = list_tag ty" "readable ty (lists h (as_intrusive_ptr (payload v)))"
  shows "\<exists>vs1 h1. to_const (generic_to_vector ty vs) v h = Inr ((next_vec vs, vs1), v, h1)
     \<and> lists h1 = lists h \<and> next_vec vs1 = Suc (next_vec vs)
     \<and> vec vs1 = (vec vs)(next_vec vs := map (elem_of ty) (lists h (as_intrusive_ptr (payload v))))"
proof -
  let ?p = "as_intrusive_ptr (payload v)"
  let ?h = "snd (IValue_copy v h)"
  let ?vs = "snd (new_vector vs)"
  from push_back_all_converts [OF to_Elem_converts_all [OF assms(2)], of "next_vec vs" ?vs ?h]
  obtain vs2 h2 where
    pb: "push_back_all (to_Elem ty) (lists h ?p) (next_vec vs) ?vs ?h = Inr (vs2, h2)"
    by blast
  from push_back_all_reads_as [OF to_Elem_reads_as pb] have
    "lists h2 = lists h \<and> next_vec vs2 = Suc (next_vec vs)
    \<and> vec vs2 = (vec vs)(next_vec vs := map (elem_of ty) (lists h ?p))"
    by (auto simp add: new_vector_def fun_eq_iff)
  then show ?thesis
    using pb by (simp add: to_const_generic_to_vector [OF assms(1)])
qed

lemma vector_of_tensors_from_a_generic_list_fails:
  "to_const (generic_to_vector Elem_Tensor \<lparr>vec = (\<lambda>a. []), next_vec = 0\<rparr>)
        \<lparr>payload = AsIntrusivePtr 1, tag = Tag_GenericList, is_intrusive_ptr = True\<rparr>
        \<lparr>refcount = (\<lambda>a. 1),
         lists = (\<lambda>a. if a = 1
           then [\<lparr>payload = AsIntrusivePtr 5, tag = Tag_Tensor, is_intrusive_ptr = True\<rparr>]
           else []),
         next_addr = 7\<rparr>
     = Inl AssertionFailure"
  by (simp add: generic_to_vector_wrong_tag)

text \<open>
  Claim C6. Converting a list-tagged value to \<open>std::vector<Elem>\<close> copies element by
  element. The source holds the list tag that \<open>to<ListPtr<Elem>>\<close> asserts (the generic
  list, or the int, double, bool or tensor list for the four element types with a
  conversion of their own) and its elements can be read as \<open>Elem\<close>. Two conversions of the
  same source both succeed and leave the source as it was; the results are two different
  vectors, each holding what \<open>to<Elem>\<close> reads from the elements of the backing store, in
  order; no backing store has changed after either conversion. A write to an element of
  one result leaves the other result as it was (and it is a write to the store of
  vectors: no backing store can change). Aliasing comes only with the typed view:
  \<open>to<ListPtr<Elem>>\<close> returns a handle to the source's own backing store, and a write
  through that handle changes that store.
\<close>

theorem vector_conversion_is_deep_copy:
  assumes "tag v = list_tag ty" "readable ty (lists h (as_intrusive_ptr (payload v)))"
  shows "\<exists>r1 vs1 h1 r2 vs2 h2.
      to_const (generic_to_vector ty vs) v h = Inr ((r1, vs1), v, h1)
      \<and> to_const (generic_to_vector ty vs1) v h1 = Inr ((r2, vs2), v, h2)
      \<and> r1 \<noteq> r2
      \<and> vec vs2 r1 = map (elem_of ty) (lists h (as_intrusive_ptr (payload v)))
      \<and> vec vs2 r2 = map (elem_of ty) (lists h (as_intrusive_ptr (payload v)))
      \<and> lists h1 = lists h \<and> lists h2 = lists h
      \<and> (\<forall>i e. vec (vector_set r1 i e vs2) r2 = vec vs2 r2
             \<and> vec (vector_set r2 i e vs2) r1 = vec vs2 r1)
      \<and> (\<exists>v' hv. to_ListPtr_rvalue ty v h2 = Inr (as_intrusive_ptr (payload v), v', hv)
            \<and> lists hv = lists h
            \<and> (\<forall>i x. lists (ListPtr_set (as_intrusive_ptr (payload v)) i x hv)
                        (as_intrusive_ptr (payload v))
                  = (lists h (as_intrusive_ptr (payload v)))[i := x]))"
proof -
  let ?p = "as_intrusive_ptr (payload v)"
  let ?ys = "map (elem_of ty) (lists h ?p)"
  from to_const_generic_to_vector_result [OF assms, of vs] obtain vs1 h1 where
    one: "to_const (generic_to_vector ty vs) v h = Inr ((next_vec vs, vs1), v, h1)"
      "lists h1 = lists h" "next_vec vs1 = Suc (next_vec vs)"
      "vec vs1 = (vec vs)(next_vec vs := ?ys)"
    by blast
  have "readable ty (lists h1 ?p)"
    using assms(2) one(2) by simp
  from to_const_generic_to_vector_result [OF assms(1) this, of vs1] obtain vs2 h2 where
    two: "to_const (generic_to_vector ty vs1) v h1 = Inr ((next_vec vs1, vs2), v, h2)"
      "lists h2 = lists h1"
      "vec vs2 = (vec vs1)(next_vec vs1 := map (elem_of ty) (lists h1 ?p))"
    by blast
  have view: "to_ListPtr_rvalue ty v h2 = Inr (?p, clearToNone v, h2)"
    using assms(1) by (rule to_ListPtr_rvalue_tag)
  have seen: "lists (ListPtr_set ?p i x h2) ?p = (lists h ?p)[i := x]" for i x
    using one(2) two(2) by (simp add: ListPtr_set_def)
  have ne: "next_vec vs \<noteq> next_vec vs1"
    using one(3) by simp
  have v1: "vec vs2 (next_vec vs) = ?ys" and v2: "vec vs2 (next_vec vs1) = ?ys"
    using one(2,3,4) two(3) by simp_all
  have indep: "vec (vector_set (next_vec vs) i e vs2) (next_vec vs1) = vec vs2 (next_vec vs1)
      \<and> vec (vector_set (next_vec vs1) i e vs2) (next_vec vs) = vec vs2 (next_vec vs)" for i e
    using ne by (simp add: vector_set_def)
  have "to_const (generic_to_vector ty vs) v h = Inr ((next_vec vs, vs1), v, h1)
      \<and> to_const (generic_to_vector ty vs1) v h1 = Inr ((next_vec vs1, vs2), v, h2)
      \<and> next_vec vs \<noteq> next_vec vs1
      \<and> vec vs2 (next_vec vs) = ?ys \<and> vec vs2 (next_vec vs1) = ?ys
      \<and> lists h1 = lists h \<and> lists h2 = lists h
      \<and> (\<forall>i e. vec (vector_set (next_vec vs) i e vs2) (next_vec vs1) = vec vs2 (next_vec vs1)
             \<and> vec (vector_set (next_vec vs1) i e vs2) (next_vec vs) = vec vs2 (next_vec vs))
      \<and> (\<exists>v' hv. to_ListPtr_rvalue ty v h2 = Inr (?p, v', hv)
            \<and> lists hv = lists h
            \<and> (\<forall>i x. lists (ListPtr_set ?p i x hv) ?p = (lists h ?p)[i := x]))"
    using one(1,2) two(1,2) ne v1 v2 indep view seen by simp
  then show ?thesis
    by (intro exI)
qed

theorem vector_conversion_is_deep_copy_witness:
  "(\<exists>r1 vs1 h1 r2 vs2 h2.
      to_const (generic_to_vector Elem_String \<lparr>vec = (\<lambda>a. []), next_vec = 0\<rparr>)
        \<lparr>payload = AsIntrusivePtr 1, tag = Tag_GenericList, is_intrusive_ptr = True\<rparr>
        \<lparr>refcount = (\<lambda>a. 1),
         lists = (\<lambda>a. if a = 1
           then [\<lparr>payload = AsIntrusivePtr 5, tag = Tag_String, is_intrusive_ptr = True\<rparr>,
                 \<lparr>payload = AsIntrusivePtr 6, tag = Tag_String, is_intrusive_ptr = True\<rparr>]
           else []),
         next_addr = 7\<rparr>
        = Inr ((r1, vs1),
            \<lparr>payload = AsIntrusivePtr 1, tag = Tag_GenericList, is_intrusive_ptr = True\<rparr>, h1)
      \<and> to_const (generic_to_vector Elem_String vs1)
        \<lparr>payload = AsIntrusivePtr 1, tag = Tag_GenericList, is_intrusive_ptr = True\<rparr> h1
        = Inr ((r2, vs2),
            \<lparr>payload = AsIntrusivePtr 1, tag = Tag_GenericList, is_intrusive_ptr = True\<rparr>, h2)
      \<and> r1 \<noteq> r2
      \<and> vec vs2 r1 = [HandleElem 5, HandleElem 6] \<and> vec vs2 r2 = [HandleElem 5, HandleElem 6]
      \<and> vec (vector_set r1 0 (HandleElem 9) vs2) r2 = [HandleElem 5, HandleElem 6]
      \<and> lists h2 1
        = [\<lparr>payload = AsIntrusivePtr 5, tag = Tag_String, is_intrusive_ptr = True\<rparr>,
           \<lparr>payload = AsIntrusivePtr 6, tag = Tag_String, is_intrusive_ptr = True\<rparr>])
   \<and> (\<exists>r1 vs1 h1 r2 vs2 h2.
      to_const (generic_to_vector Elem_int64_t \<lparr>vec = (\<lambda>a. []), next_vec = 0\<rparr>)
        \<lparr>payload = AsIntrusivePtr 2, tag = Tag_IntList, is_intrusive_ptr = True\<rparr>
        \<lparr>refcount = (\<lambda>a. 1),
         lists = (\<lambda>a. if a = 2
           then [\<lparr>payload = AsInt 7, tag = Tag_Int, is_intrusive_ptr = False\<rparr>,
                 \<lparr>payload = AsInt 8, tag = Tag_Int, is_intrusive_ptr = False\<rparr>]
           else []),
         next_addr = 3\<rparr>
        = Inr ((r1, vs1),
            \<lparr>payload = AsIntrusivePtr 2, tag = Tag_IntList, is_intrusive_ptr = True\<rparr>, h1)
      \<and> to_const (generic_to_vector Elem_int64_t vs1)
        \<lparr>payload = AsIntrusivePtr 2, tag = Tag_IntList, is_intrusive_ptr = True\<rparr> h1
        = Inr ((r2, vs2),
            \<lparr>payload = AsIntrusivePtr 2, tag = Tag_IntList, is_intrusive_ptr = True\<rparr>, h2)
      \<and> r1 \<noteq> r2
      \<and> vec vs2 r1 = [IntElem 7, IntElem 8] \<and> vec vs2 r2 = [IntElem 7, IntElem 8]
      \<and> vec (vector_set r2 1 (IntElem 0) vs2) r1 = [IntElem 7, IntElem 8])"
proof -
  let ?v = "\<lparr>payload = AsIntrusivePtr 1, tag = Tag_GenericList, is_intrusive_ptr = True\<rparr>"
  let ?xs = "[\<lparr>payload = AsIntrusivePtr 5, tag = Tag_String, is_intrusive_ptr = True\<rparr>,
              \<lparr>payload = AsIntrusivePtr 6, tag = Tag_String, is_intrusive_ptr = True\<rparr>]"
  let ?h = "\<lparr>refcount = (\<lambda>a. 1), lists = (\<lambda>a. if a = 1 then ?xs else []), next_addr = 7\<rparr>"
  let ?vs = "\<lparr>vec = (\<lambda>a. []), next_vec = 0\<rparr> :: elem_value vectors"
  let ?w = "\<lparr>payload = AsIntrusivePtr 2, tag = Tag_IntList, is_intrusive_ptr = True\<rparr>"
  let ?ns = "[\<lparr>payload = AsInt 7, tag = Tag_Int, is_intrusive_ptr = False\<rparr>,
              \<lparr>payload = AsInt 8, tag = Tag_Int, is_intrusive_ptr = False\<rparr>]"
  let ?k = "\<lparr>refcount = (\<lambda>a. 1), lists = (\<lambda>a. if a = 2 then ?ns else []), next_addr = 3\<rparr>"
  have g: "tag ?v = list_tag Elem_String" "tag ?w = list_tag Elem_int64_t"
    by simp_all
  have c: "readable Elem_String (lists ?h (as_intrusive_ptr (payload ?v)))"
    "readable Elem_int64_t (lists ?k (as_intrusive_ptr (payload ?w)))"
    by (simp_all add: readable_def)
  have m: "map (elem_of Elem_String) (lists ?h (as_intrusive_ptr (payload ?v)))
      = [HandleElem 5, HandleElem 6]"
    "map (elem_of Elem_int64_t) (lists ?k (as_intrusive_ptr (payload ?w)))
      = [IntElem 7, IntElem 8]"
    by simp_all
  from vector_conversion_is_deep_copy [OF g(1) c(1), of ?vs]
  obtain r1 vs1 h1 r2 vs2 h2 where
    w: "to_const (generic_to_vector Elem_String ?vs) ?v ?h = Inr ((r1, vs1), ?v, h1)"
    "to_const (generic_to_vector Elem_String vs1) ?v h1 = Inr ((r2, vs2), ?v, h2)"
    "r1 \<noteq> r2"
    "vec vs2 r1 = map (elem_of Elem_String) (lists ?h (as_intrusive_ptr (payload ?v)))"
    "vec vs2 r2 = map (elem_of Elem_String) (lists ?h (as_intrusive_ptr (payload ?v)))"
    "lists h1 = lists ?h" "lists h2 = lists ?h"
    "\<forall>i e. vec (vector_set r1 i e vs2) r2 = vec vs2 r2
       \<and> vec (vector_set r2 i e vs2) r1 = vec vs2 r1"
    by (elim exE conjE) (rule that)
  from w(8) have "vec (vector_set r1 0 (HandleElem 9) vs2) r2 = vec vs2 r2"
    by blast
  with w have first: "\<exists>r1 vs1 h1 r2 vs2 h2.
      to_const (generic_to_vector Elem_String ?vs) ?v ?h = Inr ((r1, vs1), ?v, h1)
      \<and> to_const (generic_to_vector Elem_String vs1) ?v h1 = Inr ((r2, vs2), ?v, h2)
      \<and> r1 \<noteq> r2
      \<and> vec vs2 r1 = [HandleElem 5, HandleElem 6] \<and> vec vs2 r2 = [HandleElem 5, HandleElem 6]
      \<and> vec (vector_set r1 0 (HandleElem 9) vs2) r2 = [HandleElem 5, HandleElem 6]
      \<and> lists h2 1 = ?xs"
    unfolding m by (intro exI [of _ r1] exI [of _ vs1] exI [of _ h1] exI [of _ r2]
        exI [of _ vs2] exI [of _ h2]) simp
  from vector_conversion_is_deep_copy [OF g(2) c(2), of ?vs]
  obtain q1 ws1 k1 q2 ws2 k2 where
    u: "to_const (generic_to_vector Elem_int64_t ?vs) ?w ?k = Inr ((q1, ws1), ?w, k1)"
    "to_const (generic_to_vector Elem_int64_t ws1) ?w k1 = Inr ((q2, ws2), ?w, k2)"
    "q1 \<noteq> q2"
    "vec ws2 q1 = map (elem_of Elem_int64_t) (lists ?k (as_intrusive_ptr (payload ?w)))"
    "vec ws2 q2 = map (elem_of Elem_int64_t) (lists ?k (as_intrusive_ptr (payload ?w)))"
    "lists k1 = lists ?k" "lists k2 = lists ?k"
    "\<forall>i e. vec (vector_set q1 i e ws2) q2 = vec ws2 q2
       \<and> vec (vector_set q2 i e ws2) q1 = vec ws2 q1"
    by (elim exE conjE) (rule that)
  from u(8) have "vec (vector_set q2 1 (IntElem 0) ws2) q1 = vec ws2 q1"
    by blast
  with u have second: "\<exists>r1 vs1 h1 r2 vs2 h2.
      to_const (generic_to_vector Elem_int64_t ?vs) ?w ?k = Inr ((r1, vs1), ?w, h1)
      \<and> to_const (generic_to_vector Elem_int64_t vs1) ?w h1 = Inr ((r2, vs2), ?w, h2)
      \<and> r1 \<noteq> r2
      \<and> vec vs2 r1 = [IntElem 7, IntElem 8] \<and> vec vs2 r2 = [IntElem 7, IntElem 8]
      \<and> vec (vector_set r2 1 (IntElem 0) vs2) r1 = [IntElem 7, IntElem 8]"
    unfolding m by (intro exI [of _ q1] exI [of _ ws1] exI [of _ k1] exI [of _ q2]
        exI [of _ ws2] exI [of _ k2]) simp
  from first second show ?thesis
    by (rule conjI)
qed

end
